theory Spec2Isabelle
  imports Complex_Main
begin

section \<open>Numbers (IEEE 754 binary64)\<close>

text \<open>
  A JavaScript number is a binary64 value. The finite ones are the reals of the form
  \<open>m * 2 powi (e - 52)\<close> with an integer \<open>m\<close> of magnitude below \<open>2 ^ 53\<close> and
  \<open>- 1022 \<le> e\<close>. \<open>round64\<close> maps a real to the nearest such value, a tie going to the
  even \<open>m\<close>, which is what every arithmetic operation does with its exact result. The
  exponent is not bounded above here: a result of magnitude \<open>2 ^ 1024\<close> or more, which
  the machine gives as \<open>Infinity\<close>, is outside the model.
\<close>

definition expo :: "real \<Rightarrow> int" where
  "expo x = max \<lfloor>log 2 x\<rfloor> (- 1022)"

definition ulp :: "real \<Rightarrow> real" where
  "ulp x = 2 powi (expo x - 52)"

definition rne :: "real \<Rightarrow> int" where
  "rne r =
     (let f = \<lfloor>r\<rfloor>
      in if r - of_int f < 1 / 2 then f
         else if 1 / 2 < r - of_int f then f + 1
         else if even f then f else f + 1)"

definition round64 :: "real \<Rightarrow> real" where
  "round64 x =
     (if x = 0 then 0
      else if 0 < x then ulp x * of_int (rne (x / ulp x))
      else - (ulp (- x) * of_int (rne (- x / ulp (- x)))))"

definition plus64 :: "real \<Rightarrow> real \<Rightarrow> real" where
  "plus64 x y = round64 (x + y)"

section \<open>Data model (types.ts)\<close>

datatype HostPersonality =
  SARCASTIC_ROBOT | ENTHUSIASTIC_HOST | STRICT_PROFESSOR | CHILL_SURFER

text \<open>The string value of each enumeration member, as a template literal prints it.\<close>

fun personality_string :: "HostPersonality \<Rightarrow> string" where
  "personality_string SARCASTIC_ROBOT = ''Sarcastic Robot''"
| "personality_string ENTHUSIASTIC_HOST = ''Enthusiastic Game Show Host''"
| "personality_string STRICT_PROFESSOR = ''Strict History Professor''"
| "personality_string CHILL_SURFER = ''Chill Surfer Dude''"

datatype GameMode = SETUP | LOADING | PLAY_LIVE | PLAY_STANDARD | GAME_OVER

record TriviaQuestion =
  question :: string
  answer :: string
  q_context :: "string option"

record GameState =
  mode :: GameMode
  topic :: string
  personality :: HostPersonality
  questions :: "TriviaQuestion list"
  gs_score :: int
  currentQuestionIndex :: int

text \<open>A JavaScript exception value.\<close>

datatype exn = Error string

text \<open>
  An \<open>AudioBuffer\<close> as far as the components read it: its frame count and sample rate;
  \<open>duration\<close> is their quotient, in seconds, as a binary64 value.
\<close>

record AudioBuffer =
  buf_length :: nat
  buf_sampleRate :: nat

definition duration :: "AudioBuffer \<Rightarrow> real" where
  "duration b = round64 (real (buf_length b) / real (buf_sampleRate b))"

datatype AudioContextState = Ctx_suspended | Ctx_running | Ctx_closed

section \<open>Template literals\<close>

definition digit :: "nat \<Rightarrow> char" where
  "digit n = ''0123456789'' ! n"

fun string_of_nat :: "nat \<Rightarrow> string" where
  "string_of_nat n =
     (if n < 10 then [digit n] else string_of_nat (n div 10) @ [digit (n mod 10)])"

text \<open>An absent optional string interpolates as the text \<open>undefined\<close>.\<close>

definition string_of_optional :: "string option \<Rightarrow> string" where
  "string_of_optional v = (case v of None \<Rightarrow> ''undefined'' | Some s \<Rightarrow> s)"

section \<open>Text to speech (services/geminiService.ts, playTextToSpeech)\<close>

text \<open>
  The promise that \<open>playTextToSpeech\<close> returns goes through these phases. \<open>Waiting\<close> is
  the state of a queued utterance whose \<open>then\<close> callback has not run yet; \<open>Requesting\<close>
  is the pending \<open>generateContent\<close> call, \<open>Decoding\<close> the pending \<open>decodeAudioData\<close>,
  \<open>Playing\<close> a started source whose \<open>onended\<close> has not fired.
\<close>

datatype phase = Waiting | Requesting | Decoding | Playing | Resolved | Rejected

definition voiceName :: "HostPersonality \<Rightarrow> string" where
  "voiceName p =
     (let v = ''Puck'';
          v = (if p = SARCASTIC_ROBOT then ''Kore'' else v);
          v = (if p = ENTHUSIASTIC_HOST then ''Fenrir'' else v);
          v = (if p = STRICT_PROFESSOR then ''Charon'' else v);
          v = (if p = CHILL_SURFER then ''Aoede'' else v)
      in v)"

text \<open>
  The body of the \<open>try\<close> block from the point where the request settles: a thrown request
  is \<open>Inl\<close>; no inline audio data, or a context that is closed by now, resolves at once;
  otherwise the audio is handed to the decoder.
\<close>

definition tts_after_response ::
  "AudioContextState \<Rightarrow> exn + string option \<Rightarrow> exn + phase" where
  "tts_after_response ctx response =
     (case response of
        Inl e \<Rightarrow> Inl e
      | Inr base64Audio \<Rightarrow>
          (if base64Audio \<noteq> None \<and> base64Audio \<noteq> Some []
           then (if ctx = Ctx_closed then Inr Resolved else Inr Decoding)
           else Inr Resolved))"

text \<open>
  The rest of the \<open>try\<close> block: a decoder that throws, or a source that cannot be created,
  connected or started, is \<open>Inl\<close>; otherwise the source is playing and the promise stays
  pending until \<open>onended\<close>.
\<close>

definition tts_after_decode :: "exn + AudioBuffer \<Rightarrow> exn option \<Rightarrow> exn + phase" where
  "tts_after_decode decoded playback =
     (case decoded of
        Inl e \<Rightarrow> Inl e
      | Inr audioBuffer \<Rightarrow> (case playback of Some e \<Rightarrow> Inl e | None \<Rightarrow> Inr Playing))"

text \<open>The \<open>catch\<close> block: log, then resolve.\<close>

definition tts_catch :: "exn + phase \<Rightarrow> phase" where
  "tts_catch r = (case r of Inl e \<Rightarrow> Resolved | Inr p \<Rightarrow> p)"

text \<open>
  The function as a whole, given what its three awaited or throwing steps do: the
  request, the decoder (\<open>base64ToBytes\<close> and \<open>decodeAudioData\<close> of the audio
  utilities), and the creation and start of the source. \<open>ctx\<close> is the state of the audio
  context when the response arrives. The result is the state of the returned promise
  once the source is started: resolved, or pending (\<open>Playing\<close>) until \<open>onended\<close>.
\<close>

record TtsRequest =
  tts_model :: string
  tts_text :: string
  tts_voiceName :: string

definition tts_request :: "string \<Rightarrow> HostPersonality \<Rightarrow> TtsRequest" where
  "tts_request spoken p =
     \<lparr>tts_model = ''gemini-2.5-flash-preview-tts'', tts_text = spoken, tts_voiceName = voiceName p\<rparr>"

definition playTextToSpeech ::
  "(TtsRequest \<Rightarrow> exn + string option) \<Rightarrow> (string \<Rightarrow> exn + AudioBuffer) \<Rightarrow>
   (AudioBuffer \<Rightarrow> exn option) \<Rightarrow> string \<Rightarrow> HostPersonality \<Rightarrow> AudioContextState \<Rightarrow> phase" where
  "playTextToSpeech generateContent decode start spoken p ctx =
     tts_catch
       (case generateContent (tts_request spoken p) of
          Inl e \<Rightarrow> Inl e
        | Inr base64Audio \<Rightarrow>
            (case base64Audio of
               None \<Rightarrow> Inr Resolved
             | Some d \<Rightarrow>
                 if d = [] then Inr Resolved
                 else if ctx = Ctx_closed then Inr Resolved
                 else (case decode d of
                         Inl e \<Rightarrow> Inl e
                       | Inr audioBuffer \<Rightarrow>
                           (case start audioBuffer of
                              Some e \<Rightarrow> Inl e
                            | None \<Rightarrow> Inr Playing))))"

section \<open>The standard game (components/StandardGame.tsx)\<close>

record utterance =
  utt_text :: string
  utt_voice :: "string option"
  utt_phase :: phase
  utt_started :: bool

record StandardGame =
  currentQIdx :: nat
  showAnswer :: bool
  score :: nat
  audioCtxRef :: "AudioContextState option"
  audioQueueRef :: "utterance list"
  questionTimer :: "nat option"
  ctxClosing :: bool
  restartCalls :: nat
  mounted :: bool

text \<open>
  \<open>speak\<close> appends a callback to the promise chain. The callbacks run in order, each one
  when the promise before it has resolved: \<open>run_chain\<close> is what the microtask queue does
  with the chain after an event. A callback that finds the context closed returns at once
  (its promise resolves); a rejected promise would reject every promise chained on it.
\<close>

definition speak :: "string \<Rightarrow> StandardGame \<Rightarrow> StandardGame" where
  "speak text s =
     (case audioCtxRef s of
        None \<Rightarrow> s
      | Some ctx \<Rightarrow>
          s\<lparr>audioQueueRef := audioQueueRef s @
               [\<lparr>utt_text = text, utt_voice = None, utt_phase = Waiting, utt_started = False\<rparr>]\<rparr>)"

fun run_chain :: "HostPersonality \<Rightarrow> AudioContextState \<Rightarrow> utterance list \<Rightarrow> utterance list" where
  "run_chain p ctx [] = []"
| "run_chain p ctx (u # us) =
     (case utt_phase u of
        Resolved \<Rightarrow> u # run_chain p ctx us
      | Rejected \<Rightarrow>
          u # map (\<lambda>v. if utt_phase v = Waiting then v\<lparr>utt_phase := Rejected\<rparr> else v) us
      | Waiting \<Rightarrow>
          (if ctx = Ctx_closed then u\<lparr>utt_phase := Resolved\<rparr> # run_chain p ctx us
           else u\<lparr>utt_phase := Requesting, utt_voice := Some (voiceName p)\<rparr> # us)
      | _ \<Rightarrow> u # us)"

definition microtasks :: "GameState \<Rightarrow> StandardGame \<Rightarrow> StandardGame" where
  "microtasks gs s =
     (case audioCtxRef s of
        None \<Rightarrow> s
      | Some ctx \<Rightarrow> s\<lparr>audioQueueRef := run_chain (personality gs) ctx (audioQueueRef s)\<rparr>)"

text \<open>
  Event handlers are closures of the render in which they were created: they read the state
  values of that render (\<open>r\<close>), while the functional updates they queue apply to the pending
  state (\<open>s\<close>).
\<close>

definition game_over_text :: "nat \<Rightarrow> string" where
  "game_over_text n = ''Game over! You scored '' @ string_of_nat n @ '' points.''"

definition onRestart :: "StandardGame \<Rightarrow> StandardGame" where
  "onRestart s = s\<lparr>restartCalls := restartCalls s + 1\<rparr>"

definition handleNext :: "GameState \<Rightarrow> StandardGame \<Rightarrow> StandardGame \<Rightarrow> StandardGame" where
  "handleNext gs r s =
     (if int (currentQIdx r) < int (length (questions gs)) - 1
      then s\<lparr>currentQIdx := currentQIdx s + 1, showAnswer := False\<rparr>
      else onRestart (speak (game_over_text (score r)) s))"

text \<open>
  \<open>currentQ\<close> is \<open>gameState.questions[currentQIdx]\<close>; out of range it is \<open>undefined\<close> and
  reading its \<open>answer\<close> throws after \<open>setShowAnswer\<close> has run.
\<close>

definition handleReveal :: "GameState \<Rightarrow> StandardGame \<Rightarrow> StandardGame \<Rightarrow> StandardGame" where
  "handleReveal gs r s =
     (let s1 = s\<lparr>showAnswer := True\<rparr>
      in if currentQIdx r < length (questions gs)
         then (let currentQ = questions gs ! currentQIdx r
               in speak (''The answer is '' @ answer currentQ @ ''. ''
                          @ string_of_optional (q_context currentQ)) s1)
         else s1)"

definition gotItRight :: "GameState \<Rightarrow> StandardGame \<Rightarrow> StandardGame \<Rightarrow> StandardGame" where
  "gotItRight gs r s = handleNext gs r (s\<lparr>score := score s + 1\<rparr>)"

definition missedIt :: "GameState \<Rightarrow> StandardGame \<Rightarrow> StandardGame \<Rightarrow> StandardGame" where
  "missedIt gs r s = handleNext gs r s"

text \<open>
  The effect on \<open>[currentQIdx]\<close>: its cleanup clears the timer of the previous run, and it
  arms a new one when the question exists and the answer is hidden.
\<close>

definition question_effect :: "GameState \<Rightarrow> StandardGame \<Rightarrow> StandardGame" where
  "question_effect gs s =
     s\<lparr>questionTimer :=
         (if currentQIdx s < length (questions gs) \<and> \<not> showAnswer s
          then Some (currentQIdx s) else None)\<rparr>"

definition timer_text :: "GameState \<Rightarrow> nat \<Rightarrow> string" where
  "timer_text gs i =
     ''Question '' @ string_of_nat (i + 1) @ ''. '' @ question (questions gs ! i)"

text \<open>Unmounting runs both cleanups: the context is asked to close, the timer is cleared.\<close>

definition unmount :: "StandardGame \<Rightarrow> StandardGame" where
  "unmount s = s\<lparr>mounted := False, questionTimer := None,
                 ctxClosing := (audioCtxRef s \<noteq> None \<or> ctxClosing s)\<rparr>"

text \<open>
  After a click React commits the pending state: the question effect runs again when the
  index changed, and the parent, whose \<open>onRestart\<close> leaves the game mode, unmounts the
  component.
\<close>

definition commit :: "GameState \<Rightarrow> StandardGame \<Rightarrow> StandardGame \<Rightarrow> StandardGame" where
  "commit gs r s =
     (let s1 = (if currentQIdx s \<noteq> currentQIdx r then question_effect gs s else s)
      in if restartCalls s1 \<noteq> restartCalls r then unmount s1 else s1)"

definition click ::
  "GameState \<Rightarrow> (GameState \<Rightarrow> StandardGame \<Rightarrow> StandardGame \<Rightarrow> StandardGame) \<Rightarrow>
   StandardGame \<Rightarrow> StandardGame" where
  "click gs handler s = (if mounted s then commit gs s (handler gs s s) else s)"

definition set_phase :: "nat \<Rightarrow> phase \<Rightarrow> utterance list \<Rightarrow> utterance list" where
  "set_phase k p q = q[k := (q ! k)\<lparr>utt_phase := p, utt_started := (utt_started (q ! k) \<or> p = Playing)\<rparr>]"

datatype event =
    ClickReveal
  | ClickGotItRight
  | ClickMissedIt
  | TimerFires
  | Unmount
  | ContextClosed
  | TtsResponse nat "exn + string option"
  | DecodeDone nat "exn + AudioBuffer" "exn option"
  | PlaybackEnded nat

definition phase_at :: "StandardGame \<Rightarrow> nat \<Rightarrow> phase option" where
  "phase_at s k =
     (if k < length (audioQueueRef s) then Some (utt_phase (audioQueueRef s ! k)) else None)"

fun handle :: "GameState \<Rightarrow> event \<Rightarrow> StandardGame \<Rightarrow> StandardGame" where
  "handle gs ClickReveal s = click gs handleReveal s"
| "handle gs ClickGotItRight s = click gs gotItRight s"
| "handle gs ClickMissedIt s = click gs missedIt s"
| "handle gs TimerFires s =
     (case questionTimer s of
        None \<Rightarrow> s
      | Some i \<Rightarrow> speak (timer_text gs i) (s\<lparr>questionTimer := None\<rparr>))"
| "handle gs Unmount s = (if mounted s then unmount s else s)"
| "handle gs ContextClosed s =
     (if ctxClosing s \<and> audioCtxRef s \<noteq> None then s\<lparr>audioCtxRef := Some Ctx_closed\<rparr> else s)"
| "handle gs (TtsResponse k response) s =
     (case audioCtxRef s of
        None \<Rightarrow> s
      | Some ctx \<Rightarrow>
          (if phase_at s k = Some Requesting
           then s\<lparr>audioQueueRef :=
                    set_phase k (tts_catch (tts_after_response ctx response)) (audioQueueRef s)\<rparr>
           else s))"
| "handle gs (DecodeDone k decoded playback) s =
     (if phase_at s k = Some Decoding
      then s\<lparr>audioQueueRef :=
               set_phase k (tts_catch (tts_after_decode decoded playback)) (audioQueueRef s)\<rparr>
      else s)"
| "handle gs (PlaybackEnded k) s =
     (if phase_at s k = Some Playing
      then s\<lparr>audioQueueRef := set_phase k Resolved (audioQueueRef s)\<rparr>
      else s)"

definition step :: "GameState \<Rightarrow> StandardGame \<Rightarrow> event \<Rightarrow> StandardGame" where
  "step gs s ev = microtasks gs (handle gs ev s)"

definition run :: "GameState \<Rightarrow> event list \<Rightarrow> StandardGame \<Rightarrow> StandardGame" where
  "run gs evs s = foldl (step gs) s evs"

text \<open>
  Mounting: the first render, then the two effects in order. The first creates the audio
  context and speaks the introduction, the second arms the question timer.
\<close>

definition intro_text :: "GameState \<Rightarrow> string" where
  "intro_text gs =
     ''Welcome to the game! I am your host, the '' @ personality_string (personality gs)
       @ ''. Let's test your knowledge on '' @ topic gs @ ''.''"

definition first_render :: StandardGame where
  "first_render =
     \<lparr>currentQIdx = 0, showAnswer = False, score = 0, audioCtxRef = None,
      audioQueueRef = [], questionTimer = None, ctxClosing = False, restartCalls = 0,
      mounted = True\<rparr>"

definition mount :: "GameState \<Rightarrow> StandardGame" where
  "mount gs =
     microtasks gs
       (question_effect gs
          (speak (intro_text gs) (first_render\<lparr>audioCtxRef := Some Ctx_running\<rparr>)))"

section \<open>Question generation (services/geminiService.ts, generateTriviaQuestions)\<close>

text \<open>
  The value that \<open>JSON.parse\<close> returns. \<open>JSON.parse\<close> itself belongs to the platform:
  the model takes it as a parameter, \<open>Inl\<close> standing for its \<open>SyntaxError\<close>.
\<close>

datatype json =
    JNull
  | JBool bool
  | JNumber real
  | JString string
  | JArray "json list"
  | JObject "(string \<times> json) list"

text \<open>
  What the function reads of the response: its \<open>text\<close>, and for each grounding chunk of
  the first candidate the value of \<open>chunk.web?.uri\<close>.
\<close>

record GenerateContentResponse =
  resp_text :: "string option"
  groundingChunks :: "string option list option"

record TriviaResult =
  result_questions :: "json option"
  sources :: "string list"

definition newline :: char where
  "newline = CHR 0x0A"

definition backtick :: char where
  "backtick = CHR 0x60"

definition prompt :: "string \<Rightarrow> string" where
  \<open>prompt a_topic = concat
     [''Generate 5 interesting, fact-checked trivia questions about "'', a_topic, ''".'', [newline],
      ''      Include the correct answer and a brief context/fun fact for each.'', [newline],
      ''      Ensure the information is up-to-date using Google Search.'', [newline],
      ''      '', [newline],
      ''      Output the result purely as a valid JSON object with the following structure:'', [newline],
      ''      {'', [newline],
      ''        "questions": ['', [newline],
      ''          {'', [newline],
      ''            "question": "string",'', [newline],
      ''            "answer": "string",'', [newline],
      ''            "context": "string"'', [newline],
      ''          }'', [newline],
      ''        ]'', [newline],
      ''      }'', [newline],
      ''      Do not wrap the response in markdown code blocks (like ```json). Just return the raw JSON string.'']\<close>

text \<open>
  \<open>s.replace(/pat/g, rep)\<close> for a pattern without metacharacters: the occurrences are
  found from left to right and do not overlap.
\<close>

function replace_all :: "string \<Rightarrow> string \<Rightarrow> string \<Rightarrow> string" where
  "replace_all pat rep [] = []"
| "replace_all pat rep (c # cs) =
     (if pat \<noteq> [] \<and> take (length pat) (c # cs) = pat
      then rep @ replace_all pat rep (drop (length pat) (c # cs))
      else c # replace_all pat rep cs)"
  by pat_completeness auto
termination
  by (relation "measure (\<lambda>(pat, rep, s). length s)") auto

text \<open>
  \<open>String.prototype.trim\<close> removes white space and line terminators from both ends; among
  the code units below 256 these are the seven below.
\<close>

definition is_space :: "char \<Rightarrow> bool" where
  "is_space c = (c \<in> set [CHR 0x09, CHR 0x0A, CHR 0x0B, CHR 0x0C, CHR 0x0D, CHR 0x20, CHR 0xA0])"

definition trim :: "string \<Rightarrow> string" where
  "trim s = rev (dropWhile is_space (rev (dropWhile is_space s)))"

definition strip_fences :: "string \<Rightarrow> string" where
  "strip_fences jsonText = trim (replace_all ''```'' [] (replace_all ''```json'' [] jsonText))"

text \<open>\<open>Array.from(new Set(xs))\<close>: the first occurrence of each element, in order.\<close>

definition unique :: "string list \<Rightarrow> string list" where
  "unique xs = foldl (\<lambda>acc x. if x \<in> set acc then acc else acc @ [x]) [] xs"

text \<open>
  \<open>parsed.questions\<close>: reading a property of \<open>null\<close> throws a \<open>TypeError\<close>; an object
  gives the member or \<open>undefined\<close>; every other value has no such property.
\<close>

definition get_questions :: "json \<Rightarrow> exn + json option" where
  "get_questions parsed =
     (case parsed of
        JNull \<Rightarrow> Inl (Error ''TypeError'')
      | JObject members \<Rightarrow> Inr (map_of members ''questions'')
      | _ \<Rightarrow> Inr None)"

definition extract_sources :: "GenerateContentResponse \<Rightarrow> string list" where
  "extract_sources response =
     (case groundingChunks response of
        None \<Rightarrow> []
      | Some chunks \<Rightarrow> concat (map (\<lambda>uri. case uri of None \<Rightarrow> [] | Some u \<Rightarrow> if u = [] then [] else [u]) chunks))"

text \<open>The \<open>try\<close> block; \<open>Inl\<close> is an exception thrown inside it.\<close>

definition generate_try ::
  "(string \<Rightarrow> exn + json) \<Rightarrow> (string \<Rightarrow> exn + GenerateContentResponse) \<Rightarrow> string \<Rightarrow>
   exn + TriviaResult" where
  "generate_try JSON_parse generateContent a_topic =
     (case generateContent (prompt a_topic) of
        Inl e \<Rightarrow> Inl e
      | Inr response \<Rightarrow>
          (case resp_text response of
             None \<Rightarrow> Inl (Error ''No data returned'')
           | Some jsonText \<Rightarrow>
               if jsonText = [] then Inl (Error ''No data returned'')
               else (case JSON_parse (strip_fences jsonText) of
                       Inl e \<Rightarrow> Inl e
                     | Inr parsed \<Rightarrow>
                         (let sources = extract_sources response
                          in case get_questions parsed of
                               Inl e \<Rightarrow> Inl e
                             | Inr qs \<Rightarrow>
                                 Inr \<lparr>result_questions = qs, sources = unique sources\<rparr>))))"

definition fallback :: TriviaResult where
  "fallback =
     \<lparr>result_questions =
        Some (JArray
          [JObject [(''question'', JString ''What is the capital of France?''),
                    (''answer'', JString ''Paris''),
                    (''context'', JString ''It is known as the City of Lights.'')]]),
      sources = []\<rparr>"

text \<open>The whole function: the \<open>catch\<close> block logs the exception and returns the fallback.\<close>

definition generateTriviaQuestions ::
  "(string \<Rightarrow> exn + json) \<Rightarrow> (string \<Rightarrow> exn + GenerateContentResponse) \<Rightarrow> string \<Rightarrow>
   TriviaResult" where
  "generateTriviaQuestions JSON_parse generateContent a_topic =
     (case generate_try JSON_parse generateContent a_topic of
        Inl e \<Rightarrow> fallback
      | Inr r \<Rightarrow> r)"

text \<open>
  A JSON text wrapped in a fenced code block, as a model that ignores the prompt writes it;
  \<open>before\<close> and \<open>after\<close> are the white space, usually a line break, between the fences
  and the text.
\<close>

definition fenced :: "string \<Rightarrow> string \<Rightarrow> string \<Rightarrow> string" where
  "fenced before after j = ''```json'' @ before @ j @ after @ ''```''"

definition blank :: "string \<Rightarrow> bool" where
  "blank s = list_all is_space s"

text \<open>Whether a text contains three backticks in a row.\<close>

fun has_fence :: "string \<Rightarrow> bool" where
  "has_fence (a # b # c # s) =
     ((a = backtick \<and> b = backtick \<and> c = backtick) \<or> has_fence (b # c # s))"
| "has_fence _ = False"

section \<open>The live game (components/LiveGame.tsx)\<close>

text \<open>
  What \<open>onMessage\<close> reads of a server message: the inline audio data of the first part of
  the model turn, and the two flags of the server content.
\<close>

record LiveServerMessage =
  msg_data :: "string option"
  turnComplete :: bool
  interrupted :: bool

record Session =
  has_close :: bool

datatype promise = Pending | Fulfilled Session | Failed exn

text \<open>The two callbacks that the component chains on the connection promise.\<close>

datatype 'b callback = Send 'b | Close

datatype 'b live_effect =
    GetUserMedia
  | Connect
  | SourceStart nat real
  | SourceStop nat
  | TrackStop nat
  | ProcessorDisconnect
  | SourceNodeDisconnect
  | InputCtxClose
  | OutputCtxClose
  | SendRealtimeInput 'b
  | SessionClose
  | OnEndGame

text \<open>
  The functions of \<open>utils/audioUtils\<close>, which the component imports and whose source is
  not part of the files at hand, are parameters of the model.
\<close>

record 'b AudioUtils =
  createPcmBlob :: "real list \<Rightarrow> 'b"
  base64ToBytes :: "string \<Rightarrow> exn + nat list"
  decodeAudioData :: "nat list \<Rightarrow> exn + AudioBuffer"

text \<open>
  The state of a mounted component: the React state, the refs, the variable \<open>isMounted\<close> of
  the effect, and a log of the calls made to the browser and to the session.
  \<open>closure_isMicOn\<close> is the constant \<open>isMicOn\<close> that the callbacks created by the effect
  see: the effect has no dependencies and runs once, so its closures keep the binding of
  the render that mounted the component. Audio sources are numbered in creation order.
  \<open>pendingDecodes\<close> holds the runs of \<open>onMessage\<close> that are suspended at their
  \<open>await\<close>: each with a number, the message it handles, and what the awaited decoder
  call will settle with.
\<close>

record 'b LiveGame =
  is_connected :: bool
  isBotSpeaking :: bool
  error_msg :: "string option"
  isMicOn :: bool
  closure_isMicOn :: bool
  isMounted :: bool
  micPending :: bool
  inputCtxRef :: "AudioContextState option"
  outputCtxRef :: "AudioContextState option"
  streamRef :: "nat list option"
  processorRef :: "bool option"
  sourceRef :: "bool option"
  sessionRef :: "promise option"
  thenCallbacks :: "'b callback list"
  nextStartTimeRef :: real
  audioSourcesRef :: "nat list"
  sourcesCreated :: nat
  pendingDecodes :: "(nat \<times> LiveServerMessage \<times> (exn + AudioBuffer)) list"
  decodesStarted :: nat
  effects :: "'b live_effect list"

definition emit :: "'b live_effect \<Rightarrow> 'b LiveGame \<Rightarrow> 'b LiveGame" where
  "emit e st = st\<lparr>effects := effects st @ [e]\<rparr>"

definition live_first_render :: "'b LiveGame" where
  "live_first_render =
     \<lparr>is_connected = False, isBotSpeaking = False, error_msg = None, isMicOn = True,
      closure_isMicOn = True, isMounted = False, micPending = False, inputCtxRef = None,
      outputCtxRef = None, streamRef = None, processorRef = None, sourceRef = None,
      sessionRef = None, thenCallbacks = [], nextStartTimeRef = 0, audioSourcesRef = [],
      sourcesCreated = 0, pendingDecodes = [], decodesStarted = 0, effects = []\<rparr>"

text \<open>
  The effect, up to the first \<open>await\<close> of \<open>init\<close>: both contexts are created and the
  microphone is requested.
\<close>

definition live_mount :: "'b LiveGame" where
  "live_mount =
     (let r = live_first_render
      in emit GetUserMedia
           (r\<lparr>isMounted := True, closure_isMicOn := isMicOn r,
              inputCtxRef := Some Ctx_running, outputCtxRef := Some Ctx_running,
              micPending := True\<rparr>))"

text \<open>
  \<open>init\<close> resumes when \<open>getUserMedia\<close> settles, whether the component is still mounted
  or not. A rejection goes to the \<open>catch\<close> block; otherwise the stream is kept, the
  connection is started and its promise is kept in \<open>sessionRef\<close>.
\<close>

definition micSettled :: "exn + nat list \<Rightarrow> 'b LiveGame \<Rightarrow> 'b LiveGame" where
  "micSettled outcome st =
     (if \<not> micPending st then st
      else (case outcome of
              Inl err \<Rightarrow>
                (if isMounted st
                 then st\<lparr>micPending := False,
                         error_msg := Some ''Failed to access microphone or connect.''\<rparr>
                 else st\<lparr>micPending := False\<rparr>)
            | Inr tracks \<Rightarrow>
                emit Connect
                  (st\<lparr>micPending := False, streamRef := Some tracks, sessionRef := Some Pending\<rparr>)))"

definition run_callback :: "Session \<Rightarrow> 'b callback \<Rightarrow> 'b LiveGame \<Rightarrow> 'b LiveGame" where
  "run_callback session cb st =
     (case cb of
        Send pcmBlob \<Rightarrow> emit (SendRealtimeInput pcmBlob) st
      | Close \<Rightarrow> (if has_close session then emit SessionClose st else st))"

text \<open>
  \<open>promise.then(cb)\<close>: the callback runs at once on a fulfilled promise, waits on a pending
  one, and never runs on a rejected one.
\<close>

definition then_session :: "'b callback \<Rightarrow> 'b LiveGame \<Rightarrow> 'b LiveGame" where
  "then_session cb st =
     (case sessionRef st of
        Some (Fulfilled session) \<Rightarrow> run_callback session cb st
      | Some Pending \<Rightarrow> st\<lparr>thenCallbacks := thenCallbacks st @ [cb]\<rparr>
      | _ \<Rightarrow> st)"

definition sessionSettled :: "exn + Session \<Rightarrow> 'b LiveGame \<Rightarrow> 'b LiveGame" where
  "sessionSettled outcome st =
     (if sessionRef st \<noteq> Some Pending then st
      else (case outcome of
              Inl err \<Rightarrow> st\<lparr>sessionRef := Some (Failed err), thenCallbacks := []\<rparr>
            | Inr session \<Rightarrow>
                foldl (\<lambda>s cb. run_callback session cb s)
                  (st\<lparr>sessionRef := Some (Fulfilled session), thenCallbacks := []\<rparr>)
                  (thenCallbacks st)))"

definition onOpen :: "'b LiveGame \<Rightarrow> 'b LiveGame" where
  "onOpen st =
     (if \<not> isMounted st then st
      else (let st1 = st\<lparr>is_connected := True\<rparr>
            in if inputCtxRef st1 \<noteq> None \<and> streamRef st1 \<noteq> None
               then st1\<lparr>sourceRef := Some True, processorRef := Some True\<rparr>
               else st1))"

definition onaudioprocess :: "'b AudioUtils \<Rightarrow> real list \<Rightarrow> 'b LiveGame \<Rightarrow> 'b LiveGame" where
  "onaudioprocess utils inputData st =
     (if \<not> closure_isMicOn st then st
      else (let pcmBlob = createPcmBlob utils inputData
            in then_session (Send pcmBlob) st))"

text \<open>
  \<open>onMessage\<close> is an \<open>async\<close> function with one \<open>await\<close>, at the decoder call, so a
  run of it on a message with audio data has two parts and other handlers run between
  them. \<open>onMessage\<close> below is the part up to the \<open>await\<close>: the guard, the write of the
  cursor, and the call \<open>decodeAudioData(base64ToBytes(data), ctx)\<close>, whose argument is
  evaluated at once (if \<open>base64ToBytes\<close> throws, the run ends there). A message without
  audio data, or one that finds no output context, goes straight to the rest of the
  handler. \<open>decodeSettled\<close> is the part after the \<open>await\<close>: it runs when the decoder
  call of that run settles, without looking at \<open>isMounted\<close> again; a rejection ends
  the run, a buffer is scheduled at the cursor as it is by then, and the rest of the
  handler follows.
\<close>

definition handle_interruption :: "'b LiveGame \<Rightarrow> 'b LiveGame" where
  "handle_interruption st =
     (foldl (\<lambda>s src. emit (SourceStop src) s) st (audioSourcesRef st))
       \<lparr>audioSourcesRef := [], nextStartTimeRef := 0, isBotSpeaking := False\<rparr>"

definition after_audio :: "LiveServerMessage \<Rightarrow> 'b LiveGame \<Rightarrow> 'b LiveGame" where
  "after_audio msg st = (if interrupted msg then handle_interruption st else st)"

definition onMessage ::
  "'b AudioUtils \<Rightarrow> real \<Rightarrow> LiveServerMessage \<Rightarrow> 'b LiveGame \<Rightarrow> 'b LiveGame" where
  "onMessage utils currentTime msg st =
     (if \<not> isMounted st then st
      else (case msg_data msg of
              None \<Rightarrow> after_audio msg st
            | Some data \<Rightarrow>
                (if data = [] \<or> outputCtxRef st = None then after_audio msg st
                 else (let st1 = st\<lparr>isBotSpeaking := True,
                                    nextStartTimeRef := max (nextStartTimeRef st) currentTime\<rparr>
                       in case base64ToBytes utils data of
                            Inl err \<Rightarrow> st1
                          | Inr bytes \<Rightarrow>
                              st1\<lparr>pendingDecodes :=
                                    pendingDecodes st1 @
                                      [(decodesStarted st1, msg, decodeAudioData utils bytes)],
                                  decodesStarted := decodesStarted st1 + 1\<rparr>))))"

definition start_source :: "AudioBuffer \<Rightarrow> 'b LiveGame \<Rightarrow> 'b LiveGame" where
  "start_source audioBuffer st =
     (let source = sourcesCreated st;
          st1 = emit (SourceStart source (nextStartTimeRef st))
                  (st\<lparr>sourcesCreated := source + 1\<rparr>)
      in st1\<lparr>nextStartTimeRef := plus64 (nextStartTimeRef st1) (duration audioBuffer),
             audioSourcesRef :=
               (if source \<in> set (audioSourcesRef st1) then audioSourcesRef st1
                else audioSourcesRef st1 @ [source])\<rparr>)"

definition decodeSettled :: "nat \<Rightarrow> 'b LiveGame \<Rightarrow> 'b LiveGame" where
  "decodeSettled k st =
     (case find (\<lambda>p. fst p = k) (pendingDecodes st) of
        None \<Rightarrow> st
      | Some (k', msg, outcome) \<Rightarrow>
          (let st1 = st\<lparr>pendingDecodes := filter (\<lambda>p. fst p \<noteq> k) (pendingDecodes st)\<rparr>
           in case outcome of
                Inl err \<Rightarrow> st1
              | Inr audioBuffer \<Rightarrow> after_audio msg (start_source audioBuffer st1)))"

text \<open>The \<open>ended\<close> listener of a source.\<close>

definition sourceEnded :: "nat \<Rightarrow> 'b LiveGame \<Rightarrow> 'b LiveGame" where
  "sourceEnded source st =
     (if source < sourcesCreated st
      then (let st1 = st\<lparr>audioSourcesRef := removeAll source (audioSourcesRef st)\<rparr>
            in if audioSourcesRef st1 = [] then st1\<lparr>isBotSpeaking := False\<rparr> else st1)
      else st)"

definition toggleMic :: "'b LiveGame \<Rightarrow> 'b LiveGame" where
  "toggleMic st = st\<lparr>isMicOn := \<not> isMicOn st\<rparr>"

definition onError :: "'b LiveGame \<Rightarrow> 'b LiveGame" where
  "onError st = (if isMounted st then st\<lparr>error_msg := Some ''Connection interrupted.''\<rparr> else st)"

text \<open>
  The cleanup of the effect, line by line. Each line acts on what its ref holds at that
  moment and does nothing on an empty ref.
\<close>

definition stop_tracks :: "'b LiveGame \<Rightarrow> 'b LiveGame" where
  "stop_tracks st =
     (case streamRef st of
        None \<Rightarrow> st
      | Some tracks \<Rightarrow> foldl (\<lambda>s t. emit (TrackStop t) s) st tracks)"

definition disconnect_processor :: "'b LiveGame \<Rightarrow> 'b LiveGame" where
  "disconnect_processor st =
     (case processorRef st of
        None \<Rightarrow> st
      | Some c \<Rightarrow> emit ProcessorDisconnect (st\<lparr>processorRef := Some False\<rparr>))"

definition disconnect_source :: "'b LiveGame \<Rightarrow> 'b LiveGame" where
  "disconnect_source st =
     (case sourceRef st of
        None \<Rightarrow> st
      | Some c \<Rightarrow> emit SourceNodeDisconnect (st\<lparr>sourceRef := Some False\<rparr>))"

definition close_input :: "'b LiveGame \<Rightarrow> 'b LiveGame" where
  "close_input st =
     (case inputCtxRef st of
        None \<Rightarrow> st
      | Some c \<Rightarrow> emit InputCtxClose (st\<lparr>inputCtxRef := Some Ctx_closed\<rparr>))"

definition close_output :: "'b LiveGame \<Rightarrow> 'b LiveGame" where
  "close_output st =
     (case outputCtxRef st of
        None \<Rightarrow> st
      | Some c \<Rightarrow> emit OutputCtxClose (st\<lparr>outputCtxRef := Some Ctx_closed\<rparr>))"

definition close_session :: "'b LiveGame \<Rightarrow> 'b LiveGame" where
  "close_session st =
     (case sessionRef st of
        None \<Rightarrow> st
      | Some p \<Rightarrow> then_session Close st)"

definition cleanup :: "'b LiveGame \<Rightarrow> 'b LiveGame" where
  "cleanup st =
     close_session
       (close_output
          (close_input
             (disconnect_source
                (disconnect_processor
                   (stop_tracks (st\<lparr>isMounted := False\<rparr>))))))"

text \<open>
  \<open>onEndGame\<close> makes the parent leave the game mode, which unmounts the component and runs
  the cleanup.
\<close>

definition onEndGame :: "'b LiveGame \<Rightarrow> 'b LiveGame" where
  "onEndGame st = cleanup (emit OnEndGame st)"

definition onClose :: "'b LiveGame \<Rightarrow> 'b LiveGame" where
  "onClose st = (if isMounted st then onEndGame st else st)"

datatype live_event =
    MicSettled "exn + nat list"
  | SessionSettled "exn + Session"
  | Open
  | Message real LiveServerMessage
  | DecodeSettled nat
  | SourceEnded nat
  | AudioProcess "real list"
  | ToggleMic
  | SessionClosed
  | SessionError
  | EndSession
  | Teardown

fun live_step :: "'b AudioUtils \<Rightarrow> 'b LiveGame \<Rightarrow> live_event \<Rightarrow> 'b LiveGame" where
  "live_step utils st (MicSettled outcome) = micSettled outcome st"
| "live_step utils st (SessionSettled outcome) = sessionSettled outcome st"
| "live_step utils st Open = (if sessionRef st = None then st else onOpen st)"
| "live_step utils st (Message currentTime msg) =
     (if sessionRef st = None then st else onMessage utils currentTime msg st)"
| "live_step utils st (DecodeSettled k) = decodeSettled k st"
| "live_step utils st (SourceEnded source) = sourceEnded source st"
| "live_step utils st (AudioProcess inputData) =
     (if processorRef st = Some True then onaudioprocess utils inputData st else st)"
| "live_step utils st ToggleMic = (if isMounted st then toggleMic st else st)"
| "live_step utils st SessionClosed = (if sessionRef st = None then st else onClose st)"
| "live_step utils st SessionError = (if sessionRef st = None then st else onError st)"
| "live_step utils st EndSession = (if isMounted st then onEndGame st else st)"
| "live_step utils st Teardown = (if isMounted st then cleanup st else st)"

definition live_run :: "'b AudioUtils \<Rightarrow> live_event list \<Rightarrow> 'b LiveGame \<Rightarrow> 'b LiveGame" where
  "live_run utils evs st = foldl (live_step utils) st evs"

text \<open>
  Messages processed in arrival order: each message is handled at its context time and
  the decoder call of its run, if it made one, settles before the next message is handled.
\<close>

definition handle_in_order ::
  "'b AudioUtils \<Rightarrow> real \<Rightarrow> LiveServerMessage \<Rightarrow> 'b LiveGame \<Rightarrow> 'b LiveGame" where
  "handle_in_order utils currentTime msg st =
     decodeSettled (decodesStarted st) (onMessage utils currentTime msg st)"


text \<open>The times passed to \<open>source.start\<close>, in call order.\<close>

fun start_times :: "'b live_effect list \<Rightarrow> real list" where
  "start_times [] = []"
| "start_times (SourceStart source t # es) = t # start_times es"
| "start_times (e # es) = start_times es"

text \<open>What decoding the audio data of a message gives.\<close>

definition decoded :: "'b AudioUtils \<Rightarrow> LiveServerMessage \<Rightarrow> AudioBuffer option" where
  "decoded utils msg =
     (case msg_data msg of
        None \<Rightarrow> None
      | Some data \<Rightarrow>
          (if data = [] then None
           else (case base64ToBytes utils data of
                   Inl err \<Rightarrow> None
                 | Inr bytes \<Rightarrow>
                     (case decodeAudioData utils bytes of
                        Inl err \<Rightarrow> None
                      | Inr audioBuffer \<Rightarrow> Some audioBuffer))))"


section \<open>Predicates used in the statements\<close>

text \<open>
  The shape of the promise chain between two events: resolved utterances, then at most one
  utterance being requested, decoded or played, then waiting ones. \<open>chain_pre\<close> is the
  shape before the microtasks have run.
\<close>

fun active :: "phase \<Rightarrow> bool" where
  "active Requesting = True"
| "active Decoding = True"
| "active Playing = True"
| "active _ = False"

definition all_waiting :: "utterance list \<Rightarrow> bool" where
  "all_waiting us = list_all (\<lambda>u. utt_phase u = Waiting) us"

fun chain_ok :: "utterance list \<Rightarrow> bool" where
  "chain_ok [] = True"
| "chain_ok (u # us) =
     (if utt_phase u = Resolved then chain_ok us
      else active (utt_phase u) \<and> all_waiting us)"

fun chain_pre :: "utterance list \<Rightarrow> bool" where
  "chain_pre [] = True"
| "chain_pre (u # us) =
     (if utt_phase u = Resolved then chain_pre us
      else (active (utt_phase u) \<or> utt_phase u = Waiting) \<and> all_waiting us)"

definition queue_inv :: "StandardGame \<Rightarrow> bool" where
  "queue_inv s = (audioCtxRef s \<noteq> None \<and> chain_ok (audioQueueRef s))"

text \<open>
  An utterance whose source was started is playing, or has resolved after its \<open>onended\<close>
  fired.
\<close>

definition ended_inv :: "event list \<Rightarrow> utterance list \<Rightarrow> bool" where
  "ended_inv evs q =
     (\<forall>k<length q. utt_started (q ! k) \<longrightarrow>
        utt_phase (q ! k) = Playing \<or> (utt_phase (q ! k) = Resolved \<and> PlaybackEnded k \<in> set evs))"





section \<open>Example inputs\<close>

text \<open>A game of two questions, a decoded buffer of two seconds, and event sequences.\<close>

definition demo_game :: GameState where
  "demo_game =
     \<lparr>mode = PLAY_STANDARD, topic = ''Space Exploration'', personality = ENTHUSIASTIC_HOST,
      questions =
        [\<lparr>question = ''Which planet is known as the Red Planet?'', answer = ''Mars'',
          q_context = Some ''Iron oxide gives it its colour.''\<rparr>,
         \<lparr>question = ''Who was the first human in space?'', answer = ''Yuri Gagarin'',
          q_context = None\<rparr>],
      gs_score = 0, currentQuestionIndex = 0\<rparr>"

definition demo_buffer :: AudioBuffer where
  "demo_buffer = \<lparr>buf_length = 48000, buf_sampleRate = 24000\<rparr>"

definition demo_played :: "event list" where
  "demo_played =
     [ClickReveal, TtsResponse 0 (Inr (Some ''UklGRg=='')), DecodeDone 0 (Inr demo_buffer) None,
      PlaybackEnded 0]"

definition demo_failed :: "event list" where
  "demo_failed = [ClickReveal, TtsResponse 0 (Inl (Error ''Failed to fetch''))]"

definition demo_answers :: "event list" where
  "demo_answers = [ClickReveal, ClickGotItRight, TimerFires, ClickReveal]"

text \<open>
  A game in which every utterance has resolved when the last answer is marked: the
  introduction and the first answer are played to their end, the second answer gets a
  response without audio.
\<close>

definition demo_quiet_game :: "event list" where
  "demo_quiet_game =
     [TtsResponse 0 (Inr (Some ''UklGRg=='')), DecodeDone 0 (Inr demo_buffer) None,
      PlaybackEnded 0, ClickReveal, TtsResponse 1 (Inr (Some ''UklGRg=='')),
      DecodeDone 1 (Inr demo_buffer) None, PlaybackEnded 1, ClickGotItRight, ClickReveal,
      TtsResponse 2 (Inr None)]"


text \<open>
  An instance of the audio utilities for the examples: the blob is the sample list, the
  bytes are the code units of the data, and a buffer has one frame for every two bytes
  at 24000 frames a second.
\<close>

definition demo_utils :: "real list AudioUtils" where
  "demo_utils =
     \<lparr>createPcmBlob = (\<lambda>samples. samples),
      base64ToBytes = (\<lambda>data. if CHR ''!'' \<in> set data then Inl (Error ''InvalidCharacterError'')
                                else Inr (map of_char data)),
      decodeAudioData = (\<lambda>bytes. Inr \<lparr>buf_length = length bytes div 2, buf_sampleRate = 24000\<rparr>)\<rparr>"

definition demo_audio :: LiveServerMessage where
  "demo_audio = \<lparr>msg_data = Some ''AAAAAAAAAAAAAAAAAAAAAAAA'', turnComplete = False, interrupted = False\<rparr>"

definition demo_interrupt :: LiveServerMessage where
  "demo_interrupt = \<lparr>msg_data = None, turnComplete = False, interrupted = True\<rparr>"

definition demo_session :: Session where
  "demo_session = \<lparr>has_close = True\<rparr>"

definition demo_live :: "real list LiveGame" where
  "demo_live = live_run demo_utils [MicSettled (Inr [0, 1]), SessionSettled (Inr demo_session), Open] live_mount"

text \<open>
  A message with audio data that is not base64, and one with audio data, both with the
  interruption flag.
\<close>

definition demo_garbled :: LiveServerMessage where
  "demo_garbled = \<lparr>msg_data = Some ''!!!!'', turnComplete = False, interrupted = True\<rparr>"

definition demo_barge_in :: LiveServerMessage where
  "demo_barge_in = \<lparr>msg_data = Some ''AAAAAAAAAAAAAAAAAAAAAAAA'', turnComplete = False, interrupted = True\<rparr>"



definition demo_muted :: "live_event list" where
  "demo_muted =
     [MicSettled (Inr [0, 1]), SessionSettled (Inr demo_session), Open, ToggleMic,
      AudioProcess [0.25, - 0.5]]"

definition demo_early_teardown :: "live_event list" where
  "demo_early_teardown = [Teardown, MicSettled (Inr [0, 1]), SessionSettled (Inr demo_session)]"


text \<open>
  The values of \<open>JSON.parse\<close> at the three JSON texts of the examples; every other text
  of the examples is not JSON.
\<close>

definition demo_json :: string where
  \<open>demo_json = ''{"questions":[{"question":"Which planet is known as the Red Planet?","answer":"Mars","context":"Iron oxide gives it its colour."}]}''\<close>

definition demo_questions :: json where
  "demo_questions =
     JArray [JObject [(''question'', JString ''Which planet is known as the Red Planet?''),
                      (''answer'', JString ''Mars''),
                      (''context'', JString ''Iron oxide gives it its colour.'')]]"

definition demo_json_ticks :: string where
  \<open>demo_json_ticks = ''{"questions":[{"question":"Which markup language opens a code block with ```?","answer":"Markdown","context":"The fence may name a language."}]}''\<close>

definition demo_questions_ticks :: json where
  "demo_questions_ticks =
     JArray [JObject [(''question'', JString ''Which markup language opens a code block with ```?''),
                      (''answer'', JString ''Markdown''),
                      (''context'', JString ''The fence may name a language.'')]]"

definition demo_json_stripped :: string where
  \<open>demo_json_stripped = ''{"questions":[{"question":"Which markup language opens a code block with ?","answer":"Markdown","context":"The fence may name a language."}]}''\<close>

definition demo_questions_stripped :: json where
  "demo_questions_stripped =
     JArray [JObject [(''question'', JString ''Which markup language opens a code block with ?''),
                      (''answer'', JString ''Markdown''),
                      (''context'', JString ''The fence may name a language.'')]]"

definition demo_parse :: "string \<Rightarrow> exn + json" where
  "demo_parse s =
     (if s = demo_json then Inr (JObject [(''questions'', demo_questions)])
      else if s = demo_json_ticks then Inr (JObject [(''questions'', demo_questions_ticks)])
      else if s = demo_json_stripped then Inr (JObject [(''questions'', demo_questions_stripped)])
      else Inl (Error ''SyntaxError''))"

definition demo_response :: "string \<Rightarrow> string \<Rightarrow> exn + GenerateContentResponse" where
  "demo_response t contents =
     Inr \<lparr>resp_text = Some t,
          groundingChunks = Some [Some ''https://example.org/a'', None, Some ''https://example.org/a'']\<rparr>"

section \<open>Binary64 rounding: monotone, idempotent, and how to evaluate it\<close>






lemma ulp_pos [simp]: "0 < ulp x"
  by (simp add: ulp_def)


lemma ulp_nonneg [simp]: "0 \<le> ulp x"
  using ulp_pos [of x] by linarith























section \<open>The standard game: index, score and speech queue\<close>


lemmas handler_defs = click_def commit_def handleReveal_def gotItRight_def missedIt_def
  handleNext_def onRestart_def speak_def unmount_def question_effect_def

lemma microtasks_fields [simp]:
  "currentQIdx (microtasks gs s) = currentQIdx s"
  "score (microtasks gs s) = score s"
  "mounted (microtasks gs s) = mounted s"
  "audioCtxRef (microtasks gs s) = audioCtxRef s"
  "restartCalls (microtasks gs s) = restartCalls s"
  "showAnswer (microtasks gs s) = showAnswer s"
  by (simp_all add: microtasks_def split: option.splits)

lemma step_index_in_range:
  "currentQIdx s < length (questions gs) \<Longrightarrow> currentQIdx (step gs s ev) < length (questions gs)"
  by (cases ev) (auto simp: step_def handler_defs Let_def split: option.splits)

lemma run_snoc: "run gs (evs @ [ev]) s = step gs (run gs evs s) ev"
  by (simp add: run_def)

lemma run_index_in_range:
  "currentQIdx s < length (questions gs) \<Longrightarrow> currentQIdx (run gs evs s) < length (questions gs)"
  by (induction evs rule: rev_induct) (simp_all add: run_snoc step_index_in_range, simp add: run_def)

lemma mount_index: "currentQIdx (mount gs) = 0"
  by (simp add: mount_def question_effect_def speak_def first_render_def)

lemma step_mounted: "mounted (step gs s ev) \<Longrightarrow> mounted s"
  by (cases ev) (auto simp: step_def handler_defs Let_def split: option.splits if_splits)

lemma run_mounted: "mounted (run gs evs s) \<Longrightarrow> mounted s"
  by (induction evs rule: rev_induct) (auto simp: run_snoc run_def dest: step_mounted)

lemma step_score:
  "mounted s \<Longrightarrow> score (step gs s ev) = score s + (if ev = ClickGotItRight then 1 else 0)"
  by (cases ev) (auto simp: step_def handler_defs Let_def split: option.splits if_splits)

lemma run_score:
  "mounted (run gs evs s) \<Longrightarrow> score (run gs evs s) = score s + count_list evs ClickGotItRight"
proof (induction evs rule: rev_induct)
  case Nil
  then show ?case by (simp add: run_def)
next
  case (snoc ev evs)
  from snoc.prems have m: "mounted (run gs evs s)"
    by (auto simp: run_snoc dest: step_mounted)
  with snoc.IH have "score (run gs evs s) = score s + count_list evs ClickGotItRight" by simp
  with m show ?case
    by (simp add: run_snoc step_score)
qed

lemma step_ctx: "audioCtxRef s \<noteq> None \<Longrightarrow> audioCtxRef (step gs s ev) \<noteq> None"
  by (cases ev) (auto simp: step_def handler_defs Let_def split: option.splits if_splits)

lemma run_ctx: "audioCtxRef s \<noteq> None \<Longrightarrow> audioCtxRef (run gs evs s) \<noteq> None"
proof (induction evs rule: rev_induct)
  case Nil
  then show ?case by (simp add: run_def)
next
  case (snoc ev evs)
  then show ?case using step_ctx [of "run gs evs s" gs ev] by (simp add: run_snoc)
qed

lemma mount_facts: "audioCtxRef (mount gs) \<noteq> None" "score (mount gs) = 0" "mounted (mount gs)"
  by (simp_all add: mount_def question_effect_def speak_def first_render_def)

lemma all_waiting_closed: "all_waiting us \<Longrightarrow> chain_ok (run_chain p Ctx_closed us)"
  by (induction us) (auto simp: all_waiting_def)

lemma chain_pre_run_chain: "chain_pre q \<Longrightarrow> chain_ok (run_chain p ctx q)"
proof (induction q)
  case Nil
  then show ?case by simp
next
  case (Cons u us)
  show ?case
  proof (cases "utt_phase u")
    case Waiting
    with Cons.prems show ?thesis
      by (cases "ctx = Ctx_closed") (auto simp: all_waiting_closed all_waiting_def)
  qed (use Cons in \<open>auto split: if_splits\<close>)
qed

lemma chain_ok_pre: "chain_ok q \<Longrightarrow> chain_pre q"
  by (induction q) (auto split: if_splits)

lemma chain_ok_snoc:
  "chain_ok q \<Longrightarrow> utt_phase w = Waiting \<Longrightarrow> chain_pre (q @ [w])"
  by (induction q) (auto simp: all_waiting_def split: if_splits)

lemma all_waiting_pre: "all_waiting us \<Longrightarrow> chain_pre us"
  by (cases us) (auto simp: all_waiting_def)

lemma chain_ok_set_phase:
  "chain_ok q \<Longrightarrow> k < length q \<Longrightarrow> active (utt_phase (q ! k)) \<Longrightarrow> active p \<or> p = Resolved
   \<Longrightarrow> chain_pre (set_phase k p q)"
proof (induction q arbitrary: k)
  case Nil
  then show ?case by simp
next
  case (Cons u us)
  show ?case
  proof (cases k)
    case 0
    with Cons.prems show ?thesis
      by (auto simp: set_phase_def all_waiting_pre split: if_splits)
  next
    case (Suc j)
    with Cons.prems have "utt_phase u = Resolved"
      by (auto simp: all_waiting_def list_all_iff split: if_splits)
    with Cons Suc show ?thesis
      by (auto simp: set_phase_def)
  qed
qed

lemma tts_catch_response:
  "tts_catch (tts_after_response ctx r) = Resolved \<or> tts_catch (tts_after_response ctx r) = Decoding"
  by (auto simp: tts_catch_def tts_after_response_def split: sum.splits)

lemma tts_catch_decode:
  "tts_catch (tts_after_decode d pb) = Resolved \<or> tts_catch (tts_after_decode d pb) = Playing"
  by (auto simp: tts_catch_def tts_after_decode_def split: sum.splits option.splits)

lemma microtasks_queue:
  "audioCtxRef s \<noteq> None \<Longrightarrow> chain_pre (audioQueueRef s) \<Longrightarrow> queue_inv (microtasks gs s)"
  by (auto simp: queue_inv_def microtasks_def chain_pre_run_chain)

lemma speak_pre:
  "chain_ok (audioQueueRef s) \<Longrightarrow> chain_pre (audioQueueRef (speak t s))"
  by (auto simp: speak_def chain_ok_snoc chain_ok_pre split: option.splits)

lemma handle_pre:
  assumes "queue_inv s"
  shows "audioCtxRef (handle gs ev s) \<noteq> None \<and> chain_pre (audioQueueRef (handle gs ev s))"
proof (cases ev)
  case (TtsResponse k r)
  obtain ctx where c: "audioCtxRef s = Some ctx" using assms by (auto simp: queue_inv_def)
  show ?thesis
    using assms c TtsResponse tts_catch_response [of ctx r]
    by (auto simp: queue_inv_def phase_at_def chain_ok_pre intro!: chain_ok_set_phase split: if_splits)
next
  case (DecodeDone k d pb)
  show ?thesis
    using assms DecodeDone tts_catch_decode [of d pb]
    by (auto simp: queue_inv_def phase_at_def chain_ok_pre intro!: chain_ok_set_phase split: if_splits)
next
  case (PlaybackEnded k)
  show ?thesis
    using assms PlaybackEnded
    by (auto simp: queue_inv_def phase_at_def chain_ok_pre intro!: chain_ok_set_phase split: if_splits)
qed (use assms in \<open>auto simp: queue_inv_def handler_defs Let_def chain_ok_pre chain_ok_snoc
       split: option.splits if_splits\<close>)

lemma step_queue_inv: "queue_inv s \<Longrightarrow> queue_inv (step gs s ev)"
  using handle_pre [of s gs ev] by (simp add: step_def microtasks_queue)

lemma mount_queue_inv: "queue_inv (mount gs)"
  by (simp add: queue_inv_def mount_def question_effect_def speak_def first_render_def
        microtasks_def all_waiting_def)

lemma run_queue_inv: "queue_inv s \<Longrightarrow> queue_inv (run gs evs s)"
  by (induction evs rule: rev_induct) (simp_all add: run_snoc step_queue_inv, simp add: run_def)

lemma chain_ok_active_le1:
  "chain_ok q \<Longrightarrow> length (filter (\<lambda>u. active (utt_phase u)) q) \<le> 1"
  by (induction q) (auto simp: all_waiting_def list_all_iff filter_empty_conv split: if_splits)

lemma chain_ok_not_rejected: "chain_ok q \<Longrightarrow> u \<in> set q \<Longrightarrow> utt_phase u \<noteq> Rejected"
  by (induction q) (auto simp: all_waiting_def list_all_iff split: if_splits)

lemma chain_ok_pred_resolved:
  "chain_ok q \<Longrightarrow> Suc k < length q \<Longrightarrow> utt_phase (q ! Suc k) \<noteq> Waiting
   \<Longrightarrow> utt_phase (q ! k) = Resolved"
proof (induction q arbitrary: k)
  case Nil
  then show ?case by simp
next
  case (Cons u us)
  then show ?case
    by (cases k) (auto simp: all_waiting_def list_all_iff split: if_splits)
qed

lemma length_run_chain [simp]: "length (run_chain p ctx q) = length q"
  by (induction q) (auto split: phase.splits)

lemma run_chain_nth:
  "k < length q \<Longrightarrow>
     utt_started (run_chain p ctx q ! k) = utt_started (q ! k) \<and>
     (utt_phase (run_chain p ctx q ! k) = utt_phase (q ! k) \<or> utt_phase (q ! k) = Waiting)"
proof (induction q arbitrary: k)
  case Nil
  then show ?case by simp
next
  case (Cons u us)
  then show ?case
    by (cases k) (auto split: phase.splits)
qed

lemma ended_inv_run_chain: "ended_inv evs q \<Longrightarrow> ended_inv evs (run_chain p ctx q)"
  unfolding ended_inv_def
proof (intro allI impI)
  fix k
  assume h: "\<forall>k<length q. utt_started (q ! k) \<longrightarrow>
        utt_phase (q ! k) = Playing \<or> (utt_phase (q ! k) = Resolved \<and> PlaybackEnded k \<in> set evs)"
    and k: "k < length (run_chain p ctx q)" and st: "utt_started (run_chain p ctx q ! k)"
  from k have kq: "k < length q" by simp
  from run_chain_nth [OF kq, of p ctx] st have s: "utt_started (q ! k)"
    and ph: "utt_phase (run_chain p ctx q ! k) = utt_phase (q ! k) \<or> utt_phase (q ! k) = Waiting"
    by auto
  from h kq s have "utt_phase (q ! k) = Playing \<or> (utt_phase (q ! k) = Resolved \<and> PlaybackEnded k \<in> set evs)"
    by blast
  with ph show "utt_phase (run_chain p ctx q ! k) = Playing \<or>
        (utt_phase (run_chain p ctx q ! k) = Resolved \<and> PlaybackEnded k \<in> set evs)"
    by auto
qed

lemma ended_inv_mono: "ended_inv evs q \<Longrightarrow> ended_inv (evs @ [ev]) q"
  by (auto simp: ended_inv_def)

lemma ended_inv_speak:
  "ended_inv evs (audioQueueRef s) \<Longrightarrow> ended_inv evs (audioQueueRef (speak t s))"
  by (auto simp: ended_inv_def speak_def nth_append split: option.splits)

lemma ended_inv_set_phase:
  assumes "ended_inv evs q" "k < length q"
    and "p = Playing \<or> \<not> utt_started (q ! k) \<and> p \<noteq> Waiting
         \<or> (p = Resolved \<and> PlaybackEnded k \<in> set evs)"
  shows "ended_inv evs (set_phase k p q)"
  using assms unfolding ended_inv_def set_phase_def
  by (auto simp: nth_list_update)

lemma not_started_if:
  "ended_inv evs q \<Longrightarrow> k < length q \<Longrightarrow> utt_phase (q ! k) = Requesting \<or> utt_phase (q ! k) = Decoding
   \<Longrightarrow> \<not> utt_started (q ! k)"
  by (auto simp: ended_inv_def)

lemma handle_ended:
  assumes "ended_inv evs (audioQueueRef s)"
  shows "ended_inv (evs @ [ev]) (audioQueueRef (handle gs ev s))"
proof -
  have m: "ended_inv (evs @ [ev]) (audioQueueRef s)"
    using assms by (rule ended_inv_mono)
  show ?thesis
  proof (cases ev)
    case (TtsResponse k r)
    show ?thesis
    proof (cases "phase_at s k = Some Requesting \<and> audioCtxRef s \<noteq> None")
      case True
      then obtain ctx where c: "audioCtxRef s = Some ctx" by auto
      from True have k: "k < length (audioQueueRef s)" and ph: "utt_phase (audioQueueRef s ! k) = Requesting"
        by (auto simp: phase_at_def split: if_splits)
      from not_started_if [OF m k] ph have ns: "\<not> utt_started (audioQueueRef s ! k)" by simp
      have "ended_inv (evs @ [ev]) (set_phase k (tts_catch (tts_after_response ctx r)) (audioQueueRef s))"
        using tts_catch_response [of ctx r] ns
        by (intro ended_inv_set_phase [OF m k]) auto
      with True c TtsResponse show ?thesis by simp
    next
      case False
      with m TtsResponse show ?thesis by (auto split: option.splits)
    qed
  next
    case (DecodeDone k d pb)
    show ?thesis
    proof (cases "phase_at s k = Some Decoding")
      case True
      then have k: "k < length (audioQueueRef s)" and ph: "utt_phase (audioQueueRef s ! k) = Decoding"
        by (auto simp: phase_at_def split: if_splits)
      from not_started_if [OF m k] ph have ns: "\<not> utt_started (audioQueueRef s ! k)" by simp
      have "ended_inv (evs @ [ev]) (set_phase k (tts_catch (tts_after_decode d pb)) (audioQueueRef s))"
        using tts_catch_decode [of d pb] ns
        by (intro ended_inv_set_phase [OF m k]) auto
      with True DecodeDone show ?thesis by simp
    next
      case False
      with m DecodeDone show ?thesis by simp
    qed
  next
    case (PlaybackEnded k)
    show ?thesis
    proof (cases "phase_at s k = Some Playing")
      case True
      then have k: "k < length (audioQueueRef s)"
        by (auto simp: phase_at_def split: if_splits)
      have "ended_inv (evs @ [ev]) (set_phase k Resolved (audioQueueRef s))"
        using PlaybackEnded by (intro ended_inv_set_phase [OF m k]) auto
      with True PlaybackEnded show ?thesis by simp
    next
      case False
      with m PlaybackEnded show ?thesis by simp
    qed
  qed (use m in \<open>auto simp: handler_defs Let_def ended_inv_def nth_append split: option.splits\<close>)
qed

lemma step_ended:
  "ended_inv evs (audioQueueRef s) \<Longrightarrow> ended_inv (evs @ [ev]) (audioQueueRef (step gs s ev))"
  using handle_ended [of evs s ev gs]
  by (auto simp: step_def microtasks_def ended_inv_run_chain split: option.splits)

lemma run_ended: "ended_inv evs (audioQueueRef (run gs evs (mount gs)))"
proof (induction evs rule: rev_induct)
  case Nil
  show ?case
    by (simp add: run_def ended_inv_def mount_def question_effect_def speak_def
          first_render_def microtasks_def)
next
  case (snoc ev evs)
  then show ?case by (simp add: run_snoc step_ended)
qed

lemma playing_le_active:
  "length (filter (\<lambda>u. utt_phase u = Playing) q) \<le> length (filter (\<lambda>u. active (utt_phase u)) q)"
  by (induction q) auto

lemma chain_ok_around:
  "chain_ok q \<Longrightarrow> k < length q \<Longrightarrow> active (utt_phase (q ! k)) \<Longrightarrow>
     (\<forall>j<k. utt_phase (q ! j) = Resolved) \<and> (\<forall>j. k < j \<and> j < length q \<longrightarrow> utt_phase (q ! j) = Waiting)"
proof (induction q arbitrary: k)
  case Nil
  then show ?case by simp
next
  case (Cons u us)
  show ?case
  proof (cases k)
    case 0
    with Cons.prems show ?thesis
      by (auto simp: all_waiting_def list_all_iff nth_Cons split: nat.splits if_splits)
  next
    case (Suc i)
    with Cons.prems have r: "utt_phase u = Resolved"
      by (auto simp: all_waiting_def list_all_iff split: if_splits)
    with Cons.prems Suc have "chain_ok us" "i < length us" "active (utt_phase (us ! i))" by auto
    from Cons.IH [OF this] r Suc show ?thesis
      by (auto simp: nth_Cons split: nat.splits)
  qed
qed

lemma run_chain_next:
  "\<forall>j\<le>k. utt_phase (q ! j) = Resolved \<Longrightarrow> Suc k < length q \<Longrightarrow>
   utt_phase (q ! Suc k) = Waiting \<Longrightarrow> ctx \<noteq> Ctx_closed \<Longrightarrow>
   utt_phase (run_chain p ctx q ! Suc k) = Requesting \<and> utt_phase (run_chain p ctx q ! k) = Resolved"
proof (induction q arbitrary: k)
  case Nil
  then show ?case by simp
next
  case (Cons u us)
  from Cons.prems(1) have r: "utt_phase u = Resolved" by force
  show ?case
  proof (cases k)
    case 0
    with Cons.prems r show ?thesis
      by (cases us) auto
  next
    case (Suc i)
    have "\<forall>j\<le>i. utt_phase (us ! j) = Resolved"
    proof (intro allI impI)
      fix j assume "j \<le> i"
      then have "Suc j \<le> k" using Suc by simp
      with Cons.prems(1) have "utt_phase ((u # us) ! Suc j) = Resolved" by blast
      then show "utt_phase (us ! j) = Resolved" by simp
    qed
    moreover have "Suc i < length us" "utt_phase (us ! Suc i) = Waiting"
      using Cons.prems Suc by auto
    ultimately have "utt_phase (run_chain p ctx us ! Suc i) = Requesting \<and>
        utt_phase (run_chain p ctx us ! i) = Resolved"
      using Cons.IH Cons.prems(4) by blast
    with r Suc show ?thesis by simp
  qed
qed

lemma set_phase_nth:
  "k < length q \<Longrightarrow> utt_phase (set_phase k p q ! j) = (if j = k then p else utt_phase (q ! j))"
  by (auto simp: set_phase_def nth_list_update)

lemma length_set_phase [simp]: "length (set_phase k p q) = length q"
  by (simp add: set_phase_def)

lemma resolve_then_next:
  assumes ok: "chain_ok q" and k: "k < length q" and a: "active (utt_phase (q ! k))"
  shows "utt_phase (run_chain p ctx (set_phase k Resolved q) ! k) = Resolved"
    and "Suc k < length q \<Longrightarrow> ctx \<noteq> Ctx_closed \<Longrightarrow>
         utt_phase (run_chain p ctx (set_phase k Resolved q) ! Suc k) = Requesting"
proof -
  let ?q = "set_phase k Resolved q"
  from chain_ok_around [OF ok k a]
  have b: "\<forall>j<k. utt_phase (q ! j) = Resolved"
    and w: "\<forall>j. k < j \<and> j < length q \<longrightarrow> utt_phase (q ! j) = Waiting" by auto
  have r: "\<forall>j\<le>k. utt_phase (?q ! j) = Resolved"
    using b k by (auto simp: set_phase_nth)
  from run_chain_nth [of k ?q p ctx] k r
  show "utt_phase (run_chain p ctx ?q ! k) = Resolved" by auto
  assume n: "Suc k < length q" and c: "ctx \<noteq> Ctx_closed"
  from w n k have "utt_phase (?q ! Suc k) = Waiting" by (simp add: set_phase_nth)
  with run_chain_next [OF r _ _ c, of p] n
  show "utt_phase (run_chain p ctx ?q ! Suc k) = Requesting" by simp
qed

lemma run_chain_text: "map utt_text (run_chain p ctx q) = map utt_text q"
  by (induction q) (auto split: phase.splits)

text \<open>
  The promise of the whole function is resolved or pending, and the two halves that the
  events of the queue run, split at the awaited decoder, compute the same state.
\<close>

lemma playTextToSpeech_settles:
  "playTextToSpeech generateContent decode start spoken p ctx \<noteq> Rejected"
  by (auto simp: playTextToSpeech_def tts_catch_def split: sum.splits option.splits)

lemma playTextToSpeech_halves:
  "playTextToSpeech generateContent decode start spoken p ctx =
     (case tts_catch (tts_after_response ctx (generateContent (tts_request spoken p))) of
        Decoding \<Rightarrow>
          (case generateContent (tts_request spoken p) of
             Inr (Some d) \<Rightarrow>
               tts_catch (tts_after_decode (decode d)
                 (case decode d of Inl e \<Rightarrow> None | Inr audioBuffer \<Rightarrow> start audioBuffer))
           | _ \<Rightarrow> Resolved)
      | ph \<Rightarrow> ph)"
  by (auto simp: playTextToSpeech_def tts_catch_def tts_after_response_def tts_after_decode_def
      split: sum.splits option.splits)

lemmas std_defs = run_def step_def mount_def microtasks_def handler_defs first_render_def
  phase_at_def set_phase_def tts_catch_def tts_after_response_def tts_after_decode_def
  timer_text_def intro_text_def game_over_text_def

lemmas std_demo_defs = demo_game_def demo_buffer_def demo_played_def demo_failed_def demo_answers_def

text \<open>
  Claim C9. With a non-empty question list the current question index stays between 0 and
  the length minus one after every event, so the displayed position \<open>i / n\<close> has
  \<open>1 \<le> i \<le> n\<close> and the displayed question is an element of the list.
\<close>

theorem question_index_in_range:
  assumes "questions gs \<noteq> []"
  shows "currentQIdx (run gs evs (mount gs)) \<le> length (questions gs) - 1 \<and>
         1 \<le> currentQIdx (run gs evs (mount gs)) + 1 \<and>
         currentQIdx (run gs evs (mount gs)) + 1 \<le> length (questions gs) \<and>
         questions gs ! currentQIdx (run gs evs (mount gs)) \<in> set (questions gs)"
proof -
  have "currentQIdx (mount gs) < length (questions gs)"
    using assms(1) by (simp add: mount_index)
  then have "currentQIdx (run gs evs (mount gs)) < length (questions gs)"
    by (rule run_index_in_range)
  then show ?thesis by simp
qed

theorem question_index_in_range_witness:
  "questions demo_game \<noteq> [] \<and>
   currentQIdx (run demo_game demo_answers (mount demo_game)) = 1 \<and>
   currentQIdx (run demo_game demo_answers (mount demo_game)) \<le> length (questions demo_game) - 1 \<and>
   questions demo_game ! currentQIdx (run demo_game demo_answers (mount demo_game))
     \<in> set (questions demo_game)"
proof -
  have a: "questions demo_game \<noteq> []"
    and b: "currentQIdx (run demo_game demo_answers (mount demo_game)) = 1"
    by (simp_all add: std_defs std_demo_defs Let_def)
  from question_index_in_range [OF a, of demo_answers] a b show ?thesis by simp
qed

lemma set_phase_text: "map utt_text (set_phase k p q) = map utt_text q"
  by (cases "k < length q") (auto intro!: nth_equalityI simp: set_phase_def nth_list_update)

lemma handle_texts:
  "\<exists>ext. map utt_text (audioQueueRef (handle gs ev s)) = map utt_text (audioQueueRef s) @ ext"
  by (cases ev) (auto simp: handler_defs set_phase_text Let_def split: option.splits)

lemma step_texts:
  "\<exists>ext. map utt_text (audioQueueRef (step gs s ev)) = map utt_text (audioQueueRef s) @ ext"
  using handle_texts [of gs ev s]
  by (auto simp: step_def microtasks_def run_chain_text split: option.splits)

lemma run_texts:
  "\<exists>ext. map utt_text (audioQueueRef (run gs evs s)) = map utt_text (audioQueueRef s) @ ext"
proof (induction evs rule: rev_induct)
  case Nil
  show ?case by (simp add: run_def)
next
  case (snoc ev evs)
  then obtain e1 where a: "map utt_text (audioQueueRef (run gs evs s)) = map utt_text (audioQueueRef s) @ e1"
    by auto
  from step_texts [of gs "run gs evs s" ev] obtain e2
    where b: "map utt_text (audioQueueRef (step gs (run gs evs s) ev))
                = map utt_text (audioQueueRef (run gs evs s)) @ e2"
    by auto
  show ?case by (simp add: run_snoc a b)
qed

lemma run_keeps_text:
  assumes "k < length (audioQueueRef s)"
  shows "k < length (audioQueueRef (run gs evs s)) \<and>
         utt_text (audioQueueRef (run gs evs s) ! k) = utt_text (audioQueueRef s ! k)"
proof -
  from run_texts [of gs evs s] obtain ext
    where e: "map utt_text (audioQueueRef (run gs evs s)) = map utt_text (audioQueueRef s) @ ext"
    by auto
  then have "length (map utt_text (audioQueueRef (run gs evs s))) = length (audioQueueRef s) + length ext"
    by simp
  then have l: "k < length (audioQueueRef (run gs evs s))" using assms by simp
  have "utt_text (audioQueueRef (run gs evs s) ! k) = map utt_text (audioQueueRef (run gs evs s)) ! k"
    using l by simp
  also have "\<dots> = utt_text (audioQueueRef s ! k)"
    using assms by (simp add: e nth_append)
  finally show ?thesis using l by simp
qed

lemma run_append: "run gs (xs @ ys) s = run gs ys (run gs xs s)"
  by (simp add: run_def)

text \<open>While the component is mounted its audio context is open.\<close>

lemma step_ctx_open:
  "(mounted s \<longrightarrow> \<not> ctxClosing s) \<and> (\<not> ctxClosing s \<longrightarrow> audioCtxRef s = Some Ctx_running) \<Longrightarrow>
   (mounted (step gs s ev) \<longrightarrow> \<not> ctxClosing (step gs s ev)) \<and>
   (\<not> ctxClosing (step gs s ev) \<longrightarrow> audioCtxRef (step gs s ev) = Some Ctx_running)"
  by (cases ev) (auto simp: step_def microtasks_def handler_defs Let_def split: option.splits if_splits)

lemma run_ctx_open:
  "(mounted (run gs evs (mount gs)) \<longrightarrow> \<not> ctxClosing (run gs evs (mount gs))) \<and>
   (\<not> ctxClosing (run gs evs (mount gs)) \<longrightarrow> audioCtxRef (run gs evs (mount gs)) = Some Ctx_running)"
proof (induction evs rule: rev_induct)
  case Nil
  show ?case
    by (simp add: run_def mount_def microtasks_def question_effect_def speak_def first_render_def)
next
  case (snoc ev evs)
  from step_ctx_open [OF snoc] show ?case by (simp add: run_snoc)
qed

lemma run_chain_idle:
  "list_all (\<lambda>u. utt_phase u = Resolved) q \<Longrightarrow> active (utt_phase u) \<Longrightarrow>
     run_chain p ctx (q @ [u]) = q @ [u]"
  by (induction q) (auto split: phase.splits)

lemma run_chain_request:
  "list_all (\<lambda>u. utt_phase u = Resolved) q \<Longrightarrow> utt_phase u = Waiting \<Longrightarrow> ctx \<noteq> Ctx_closed \<Longrightarrow>
     run_chain p ctx (q @ [u]) = q @ [u\<lparr>utt_phase := Requesting, utt_voice := Some (voiceName p)\<rparr>]"
  by (induction q) auto

lemma set_phase_last:
  "set_phase (length q) p (q @ [u]) = q @ [u\<lparr>utt_phase := p, utt_started := (utt_started u \<or> p = Playing)\<rparr>]"
  by (simp add: set_phase_def)

lemma phase_at_last: "phase_at (s\<lparr>audioQueueRef := q @ [u]\<rparr>) (length q) = Some (utt_phase u)"
  by (simp add: phase_at_def)

text \<open>
  Claim C10. When the player marks the final question correct, the score becomes the
  number of correct answers, and the utterance that this click appends to the speech queue
  has the text \<open>Game over! You scored n - 1 points.\<close>, where \<open>n\<close> is that number: the
  template reads the score of the render in which the button was clicked. The utterance
  keeps that text whatever happens afterwards. If every earlier utterance has resolved,
  its request is issued in the same step, with the voice of the host, and once the
  response brings audio data and the decoder returns a buffer its source is started.
\<close>

theorem game_over_announces_stale_score:
  assumes s0_def: "s0 = run gs pre (mount gs)"
    and s1_def: "s1 = run gs (pre @ [ClickGotItRight]) (mount gs)"
    and s2_def: "s2 = run gs (pre @ ClickGotItRight # post) (mount gs)"
    and s3_def: "s3 = run gs (pre @ [ClickGotItRight, TtsResponse k (Inr (Some d)),
                                      DecodeDone k (Inr b) None]) (mount gs)"
    and m: "mounted s0" and final: "currentQIdx s0 + 1 = length (questions gs)"
    and k_def: "k = length (audioQueueRef s0)"
    and n_def: "n = count_list (pre @ [ClickGotItRight]) ClickGotItRight"
    and d: "d \<noteq> []"
  shows "score s1 = n \<and> restartCalls s1 = restartCalls s0 + 1 \<and>
         length (audioQueueRef s1) = k + 1 \<and> k < length (audioQueueRef s2) \<and>
         utt_text (audioQueueRef s2 ! k)
           = ''Game over! You scored '' @ string_of_nat (n - 1) @ '' points.'' \<and>
         (list_all (\<lambda>u. utt_phase u = Resolved) (audioQueueRef s0) \<longrightarrow>
            phase_at s1 k = Some Requesting \<and>
            utt_voice (audioQueueRef s1 ! k) = Some (voiceName (personality gs)) \<and>
            phase_at s3 k = Some Playing \<and> utt_started (audioQueueRef s3 ! k) \<and>
            utt_text (audioQueueRef s3 ! k)
              = ''Game over! You scored '' @ string_of_nat (n - 1) @ '' points.'')"
proof -
  note string_of_nat.simps [simp del]
  let ?T = "''Game over! You scored '' @ string_of_nat (n - 1) @ '' points.''"
  let ?q0 = "audioQueueRef s0"
  let ?u = "\<lparr>utt_text = ?T, utt_voice = None, utt_phase = Waiting, utt_started = False\<rparr>"
  let ?p = "personality gs"
  have sc: "score s0 = count_list pre ClickGotItRight"
    using run_score [of gs pre "mount gs"] m by (simp add: s0_def mount_facts)
  then have n1: "n - 1 = score s0" and n: "n = score s0 + 1" by (simp_all add: n_def)
  have c: "audioCtxRef s0 = Some Ctx_running"
    using run_ctx_open [of gs pre] m by (simp add: s0_def)
  have s1: "s1 = step gs s0 ClickGotItRight" by (simp add: s1_def s0_def run_snoc)
  let ?h = "handle gs ClickGotItRight s0"
  have t: "audioQueueRef ?h = ?q0 @ [?u]"
    and sc1: "score ?h = score s0 + 1" and rc: "restartCalls ?h = restartCalls s0 + 1"
    and hc: "audioCtxRef ?h = Some Ctx_running"
    using m final c by (auto simp: handler_defs game_over_text_def n)
  have q1: "audioQueueRef s1 = run_chain ?p Ctx_running (?q0 @ [?u])"
    using hc t by (simp add: s1 step_def microtasks_def)
  have c1: "audioCtxRef s1 = Some Ctx_running"
    using hc by (simp add: s1 step_def)
  have len: "length (audioQueueRef s1) = k + 1" by (simp add: q1 k_def)
  have "map utt_text (audioQueueRef s1) = map utt_text ?q0 @ [?T]"
    by (simp add: q1 run_chain_text)
  then have "map utt_text (audioQueueRef s1) ! k = ?T"
    by (simp add: k_def nth_append)
  then have t1: "utt_text (audioQueueRef s1 ! k) = ?T" using len by simp
  have s2: "s2 = run gs post s1"
    using run_append [of gs "pre @ [ClickGotItRight]" post "mount gs"] by (simp add: s2_def s1_def)
  have k1: "k < length (audioQueueRef s1)" using len by simp
  from run_keeps_text [OF k1, of gs post] t1
  have t2: "k < length (audioQueueRef s2)" "utt_text (audioQueueRef s2 ! k) = ?T"
    by (simp_all add: s2)
  have req: "phase_at s1 k = Some Requesting \<and>
             utt_voice (audioQueueRef s1 ! k) = Some (voiceName ?p) \<and>
             phase_at s3 k = Some Playing \<and> utt_started (audioQueueRef s3 ! k) \<and>
             utt_text (audioQueueRef s3 ! k) = ?T"
    if r: "list_all (\<lambda>u. utt_phase u = Resolved) ?q0"
  proof -
    let ?u1 = "?u\<lparr>utt_phase := Requesting, utt_voice := Some (voiceName ?p)\<rparr>"
    let ?u2 = "?u1\<lparr>utt_phase := Decoding\<rparr>"
    let ?u3 = "?u1\<lparr>utt_phase := Playing, utt_started := True\<rparr>"
    have a1: "audioQueueRef s1 = ?q0 @ [?u1]"
      using run_chain_request [OF r, of ?u Ctx_running ?p] by (simp add: q1)
    then have p1: "phase_at s1 (length ?q0) = Some Requesting"
      by (simp add: phase_at_def)
    define sa where "sa = step gs s1 (TtsResponse k (Inr (Some d)))"
    have a2: "audioQueueRef sa = ?q0 @ [?u2]" and ca: "audioCtxRef sa = Some Ctx_running"
      using run_chain_idle [OF r, of ?u2 ?p Ctx_running] d
      by (simp_all add: sa_def step_def microtasks_def c1 p1 a1 k_def set_phase_last
            tts_after_response_def tts_catch_def)
    then have pa: "phase_at sa (length ?q0) = Some Decoding"
      by (simp add: phase_at_def)
    define sb where "sb = step gs sa (DecodeDone k (Inr b) None)"
    have a3: "audioQueueRef sb = ?q0 @ [?u3]"
      using run_chain_idle [OF r, of ?u3 ?p Ctx_running]
      by (simp add: sb_def step_def microtasks_def ca pa a2 k_def set_phase_last
            tts_after_decode_def tts_catch_def)
    have s3: "s3 = sb"
      using run_append [of gs "pre @ [ClickGotItRight]"
          "[TtsResponse k (Inr (Some d)), DecodeDone k (Inr b) None]" "mount gs"]
      by (simp add: s3_def s1_def run_def sa_def sb_def)
    show ?thesis
      using p1 by (simp add: a1 s3 a3 phase_at_def k_def)
  qed
  from sc1 rc n len t2 req show ?thesis
    by (simp add: s1 step_def)
qed

theorem game_over_announces_stale_score_witness:
  "mounted (run demo_game demo_quiet_game (mount demo_game)) \<and>
   currentQIdx (run demo_game demo_quiet_game (mount demo_game)) + 1 = length (questions demo_game) \<and>
   length (audioQueueRef (run demo_game demo_quiet_game (mount demo_game))) = 3 \<and>
   list_all (\<lambda>u. utt_phase u = Resolved) (audioQueueRef (run demo_game demo_quiet_game (mount demo_game))) \<and>
   count_list (demo_quiet_game @ [ClickGotItRight]) ClickGotItRight = 2 \<and>
   score (run demo_game (demo_quiet_game @ [ClickGotItRight]) (mount demo_game)) = 2 \<and>
   phase_at (run demo_game (demo_quiet_game @ [ClickGotItRight]) (mount demo_game)) 3 = Some Requesting \<and>
   utt_voice (audioQueueRef (run demo_game (demo_quiet_game @ [ClickGotItRight]) (mount demo_game)) ! 3)
     = Some ''Fenrir'' \<and>
   utt_text (audioQueueRef (run demo_game (demo_quiet_game @ [ClickGotItRight, ContextClosed, TtsResponse 3 (Inr None)]) (mount demo_game)) ! 3)
     = ''Game over! You scored 1 points.'' \<and>
   phase_at (run demo_game (demo_quiet_game @ [ClickGotItRight, TtsResponse 3 (Inr (Some ''UklGRg=='')),
      DecodeDone 3 (Inr demo_buffer) None]) (mount demo_game)) 3 = Some Playing \<and>
   utt_started (audioQueueRef (run demo_game (demo_quiet_game @ [ClickGotItRight, TtsResponse 3 (Inr (Some ''UklGRg=='')),
      DecodeDone 3 (Inr demo_buffer) None]) (mount demo_game)) ! 3) \<and>
   utt_text (audioQueueRef (run demo_game (demo_quiet_game @ [ClickGotItRight, TtsResponse 3 (Inr (Some ''UklGRg=='')),
      DecodeDone 3 (Inr demo_buffer) None]) (mount demo_game)) ! 3)
     = ''Game over! You scored 1 points.''"
proof -
  let ?s0 = "run demo_game demo_quiet_game (mount demo_game)"
  have a: "mounted ?s0" "currentQIdx ?s0 + 1 = length (questions demo_game)"
    and l: "length (audioQueueRef ?s0) = 3"
    and r: "list_all (\<lambda>u. utt_phase u = Resolved) (audioQueueRef ?s0)"
    by (simp_all add: std_defs std_demo_defs demo_quiet_game_def Let_def)
  have c: "count_list (demo_quiet_game @ [ClickGotItRight]) ClickGotItRight = 2"
    by (simp add: demo_quiet_game_def)
  have g: "''Game over! You scored '' @ string_of_nat (2 - 1) @ '' points.''
             = ''Game over! You scored 1 points.''"
    by (simp add: digit_def)
  have v: "voiceName (personality demo_game) = ''Fenrir''"
    by (simp add: voiceName_def demo_game_def)
  have e: "''UklGRg=='' \<noteq> []" by simp
  from game_over_announces_stale_score [OF refl refl refl refl a l [symmetric] c [symmetric] e,
      where post = "[ContextClosed, TtsResponse 3 (Inr None)]" and b = demo_buffer]
    a l r c v
  show ?thesis unfolding g by simp
qed

text \<open>
  The utterance need not be spoken: the same click unmounts the component, which closes
  the audio context. When an earlier utterance is still pending at the click and the
  context has closed by the time it resolves, the callback of the game-over utterance
  returns at once and no request is made.
\<close>

lemma game_over_unspoken_example:
  "utt_text (audioQueueRef (run demo_game (demo_answers @ [ClickGotItRight, ContextClosed, TtsResponse 0 (Inr None)]) (mount demo_game)) ! 4)
     = ''Game over! You scored 1 points.'' \<and>
   phase_at (run demo_game (demo_answers @ [ClickGotItRight, ContextClosed, TtsResponse 0 (Inr None)]) (mount demo_game)) 4
     = Some Resolved \<and>
   utt_voice (audioQueueRef (run demo_game (demo_answers @ [ClickGotItRight, ContextClosed, TtsResponse 0 (Inr None)]) (mount demo_game)) ! 4)
     = None \<and>
   \<not> utt_started (audioQueueRef (run demo_game (demo_answers @ [ClickGotItRight, ContextClosed, TtsResponse 0 (Inr None)]) (mount demo_game)) ! 4)"
  by (simp add: std_defs std_demo_defs digit_def Let_def)

text \<open>
  Claim C4, as the code has it. Whatever events arrive, at most one utterance of the speech
  queue is being requested, decoded or played, so at most one plays at a time; and once
  the callback of utterance \<open>k + 1\<close> has run (its request is issued, or it is skipped
  on a closed context), utterance \<open>k\<close> has resolved: after its playback-end event if its
  source was started, and without one if it resolved silently.
\<close>

theorem speech_queue_sequential:
  assumes "q = audioQueueRef (run gs evs (mount gs))"
  shows "length (filter (\<lambda>u. utt_phase u = Playing) q) \<le> 1 \<and>
         length (filter (\<lambda>u. active (utt_phase u)) q) \<le> 1 \<and>
         (\<forall>k. Suc k < length q \<and> utt_phase (q ! Suc k) \<noteq> Waiting \<longrightarrow>
              utt_phase (q ! k) = Resolved \<and>
              (utt_started (q ! k) \<longrightarrow> PlaybackEnded k \<in> set evs))"
proof -
  have inv: "queue_inv (run gs evs (mount gs))"
    by (rule run_queue_inv [OF mount_queue_inv])
  then have ok: "chain_ok q" by (simp add: queue_inv_def assms)
  have e: "ended_inv evs q" unfolding assms by (rule run_ended)
  have act: "length (filter (\<lambda>u. active (utt_phase u)) q) \<le> 1"
    by (rule chain_ok_active_le1 [OF ok])
  have one: "length (filter (\<lambda>u. utt_phase u = Playing) q) \<le> 1"
    using act playing_le_active [of q] by linarith
  have two: "utt_phase (q ! k) = Resolved \<and> (utt_started (q ! k) \<longrightarrow> PlaybackEnded k \<in> set evs)"
    if "Suc k < length q" "utt_phase (q ! Suc k) \<noteq> Waiting" for k
  proof -
    have r: "utt_phase (q ! k) = Resolved" using chain_ok_pred_resolved [OF ok that] .
    have kl: "k < length q" using that(1) by simp
    from e kl have "utt_started (q ! k) \<longrightarrow>
        utt_phase (q ! k) = Playing \<or> (utt_phase (q ! k) = Resolved \<and> PlaybackEnded k \<in> set evs)"
      unfolding ended_inv_def by blast
    with r show ?thesis by simp
  qed
  from one act two show ?thesis by blast
qed

theorem speech_queue_sequential_witness:
  "map utt_phase (audioQueueRef (run demo_game demo_played (mount demo_game))) = [Resolved, Requesting] \<and>
   utt_started (audioQueueRef (run demo_game demo_played (mount demo_game)) ! 0) \<and>
   PlaybackEnded 0 \<in> set demo_played \<and>
   length (filter (\<lambda>u. utt_phase u = Playing) (audioQueueRef (run demo_game demo_played (mount demo_game)))) \<le> 1"
proof -
  have a: "map utt_phase (audioQueueRef (run demo_game demo_played (mount demo_game))) = [Resolved, Requesting]"
    "utt_started (audioQueueRef (run demo_game demo_played (mount demo_game)) ! 0)"
    by (simp_all add: std_defs std_demo_defs Let_def)
  from a(1) have l: "Suc 0 < length (audioQueueRef (run demo_game demo_played (mount demo_game)))"
    and w: "utt_phase (audioQueueRef (run demo_game demo_played (mount demo_game)) ! Suc 0) \<noteq> Waiting"
    by (auto simp: map_eq_Cons_conv)
  from speech_queue_sequential [OF refl, of demo_game demo_played] l w a show ?thesis by blast
qed

text \<open>
  Claim C4 as stated fails when an utterance never plays: here the request of the
  introduction is rejected, the promise resolves in the \<open>catch\<close> block, and the request of
  the next utterance is issued although no playback-end event of the introduction ever
  fired.
\<close>

theorem failed_utterance_counterexample:
  "map utt_phase (audioQueueRef (run demo_game demo_failed (mount demo_game))) = [Resolved, Requesting] \<and>
   utt_voice (audioQueueRef (run demo_game demo_failed (mount demo_game)) ! 1) = Some ''Fenrir'' \<and>
   \<not> utt_started (audioQueueRef (run demo_game demo_failed (mount demo_game)) ! 0) \<and>
   PlaybackEnded 0 \<notin> set demo_failed"
  by (simp add: std_defs std_demo_defs Let_def voiceName_def)

text \<open>
  Claim C6. For every text, personality and context state, the promise of
  \<open>playTextToSpeech\<close> never rejects: a request that throws, a decoder that throws and a
  source that cannot be started all end in the \<open>catch\<close> block, which resolves. In the
  queue no utterance is ever rejected, the failed utterance is resolved, and the utterance
  queued behind it is started, unless the context is closed.
\<close>

theorem tts_failure_resolves:
  assumes "s = run gs evs (mount gs)"
    and fail:
    "(phase_at s k = Some Requesting \<and> ev = TtsResponse k (Inl e)) \<or>
     (phase_at s k = Some Decoding \<and> (ev = DecodeDone k (Inl e) pb \<or> ev = DecodeDone k (Inr b) (Some e)))"
  shows "playTextToSpeech generateContent decode start spoken p ctx \<noteq> Rejected \<and>
         (generateContent (tts_request spoken p) = Inl err \<or>
          (\<exists>d. generateContent (tts_request spoken p) = Inr (Some d) \<and>
             (decode d = Inl err \<or> (\<exists>buf. decode d = Inr buf \<and> start buf = Some err)))
          \<longrightarrow> playTextToSpeech generateContent decode start spoken p ctx = Resolved) \<and>
         (\<forall>u\<in>set (audioQueueRef (step gs s ev)). utt_phase u \<noteq> Rejected) \<and>
         phase_at (step gs s ev) k = Some Resolved \<and>
         (Suc k < length (audioQueueRef s) \<and> audioCtxRef s \<noteq> Some Ctx_closed \<longrightarrow>
            phase_at (step gs s ev) (Suc k) = Some Requesting)"
proof -
  have inv: "queue_inv s" unfolding assms(1) by (rule run_queue_inv [OF mount_queue_inv])
  then obtain c where c: "audioCtxRef s = Some c" and ok: "chain_ok (audioQueueRef s)"
    by (auto simp: queue_inv_def)
  from fail have k: "k < length (audioQueueRef s)" and a: "active (utt_phase (audioQueueRef s ! k))"
    by (auto simp: phase_at_def split: if_splits)
  have h: "audioQueueRef (handle gs ev s) = set_phase k Resolved (audioQueueRef s)"
    using fail c by (auto simp: tts_catch_def tts_after_response_def tts_after_decode_def)
  have hc: "audioCtxRef (handle gs ev s) = Some c"
    using fail c by auto
  have q: "audioQueueRef (step gs s ev) = run_chain (personality gs) c (set_phase k Resolved (audioQueueRef s))"
    using h hc by (simp add: step_def microtasks_def)
  have 1: "playTextToSpeech generateContent decode start spoken p ctx \<noteq> Rejected"
    by (rule playTextToSpeech_settles)
  have 2: "playTextToSpeech generateContent decode start spoken p ctx = Resolved"
    if "generateContent (tts_request spoken p) = Inl err \<or>
          (\<exists>d. generateContent (tts_request spoken p) = Inr (Some d) \<and>
             (decode d = Inl err \<or> (\<exists>buf. decode d = Inr buf \<and> start buf = Some err)))"
    using that by (auto simp: playTextToSpeech_def tts_catch_def)
  have "queue_inv (step gs s ev)" using inv by (rule step_queue_inv)
  then have 3: "\<forall>u\<in>set (audioQueueRef (step gs s ev)). utt_phase u \<noteq> Rejected"
    using chain_ok_not_rejected by (auto simp: queue_inv_def)
  have 4: "phase_at (step gs s ev) k = Some Resolved"
    using resolve_then_next(1) [OF ok k a] k by (simp add: phase_at_def q)
  have 5: "phase_at (step gs s ev) (Suc k) = Some Requesting"
    if "Suc k < length (audioQueueRef s)" "audioCtxRef s \<noteq> Some Ctx_closed"
    using resolve_then_next(2) [OF ok k a that(1), of c] that c by (simp add: phase_at_def q)
  from 1 2 3 4 5 show ?thesis by blast
qed

theorem tts_failure_resolves_witness:
  "phase_at (run demo_game [ClickReveal] (mount demo_game)) 0 = Some Requesting \<and>
   phase_at (run demo_game [ClickReveal] (mount demo_game)) 1 = Some Waiting \<and>
   phase_at (step demo_game (run demo_game [ClickReveal] (mount demo_game))
              (TtsResponse 0 (Inl (Error ''Failed to fetch'')))) 0 = Some Resolved \<and>
   phase_at (step demo_game (run demo_game [ClickReveal] (mount demo_game))
              (TtsResponse 0 (Inl (Error ''Failed to fetch'')))) 1 = Some Requesting \<and>
   playTextToSpeech (\<lambda>request. Inl (Error ''Failed to fetch'')) (\<lambda>d. Inr demo_buffer)
     (\<lambda>audioBuffer. None) ''Welcome'' ENTHUSIASTIC_HOST Ctx_running = Resolved"
proof -
  let ?s = "run demo_game [ClickReveal] (mount demo_game)"
  have a: "phase_at ?s 0 = Some Requesting" "phase_at ?s 1 = Some Waiting"
    "Suc 0 < length (audioQueueRef ?s)" "audioCtxRef ?s \<noteq> Some Ctx_closed"
    by (simp_all add: std_defs std_demo_defs Let_def)
  from tts_failure_resolves [where s = ?s and gs = demo_game and evs = "[ClickReveal]" and k = 0
      and ev = "TtsResponse 0 (Inl (Error ''Failed to fetch''))" and e = "Error ''Failed to fetch''"
      and generateContent = "\<lambda>request. Inl (Error ''Failed to fetch'')"
      and err = "Error ''Failed to fetch''" and decode = "\<lambda>d. Inr demo_buffer"
      and start = "\<lambda>audioBuffer. None" and spoken = "''Welcome''" and p = ENTHUSIASTIC_HOST
      and ctx = Ctx_running]
    a
  show ?thesis by simp
qed

section \<open>Question generation: fence stripping and fallback\<close>


lemma replace_fence_id: "\<not> has_fence s \<Longrightarrow> replace_all ''```'' rep s = s"
  by (induction s rule: has_fence.induct) (auto simp: backtick_def)

lemma replace_json_fence_id: "\<not> has_fence s \<Longrightarrow> replace_all ''```json'' rep s = s"
  by (induction s rule: has_fence.induct) (auto simp: backtick_def)

lemma replace_fence_tail:
  "\<not> has_fence s \<Longrightarrow> replace_all ''```'' [] (s @ ''```'') = s"
  by (induction s rule: has_fence.induct) (auto simp: backtick_def)

lemma replace_json_fence_tail:
  "\<not> has_fence s \<Longrightarrow> replace_all ''```json'' [] (s @ ''```'') = s @ ''```''"
  by (induction s rule: has_fence.induct) (auto simp: backtick_def)

lemma space_not_backtick: "is_space c \<Longrightarrow> c \<noteq> backtick"
  by (auto simp: is_space_def backtick_def)

lemma has_fence_Cons_space: "is_space c \<Longrightarrow> has_fence (c # s) = has_fence s"
proof (cases s)
  case Nil
  then show ?thesis by simp
next
  case (Cons a t)
  assume "is_space c"
  then show ?thesis using Cons space_not_backtick [of c] by (cases t) auto
qed

lemma has_fence_snoc_space: "is_space c \<Longrightarrow> has_fence (s @ [c]) = has_fence s"
  by (induction s rule: has_fence.induct) (auto dest: space_not_backtick)

lemma has_fence_blank_left: "blank before \<Longrightarrow> has_fence (before @ s) = has_fence s"
  by (induction before) (auto simp: blank_def has_fence_Cons_space)

lemma has_fence_blank_right: "blank after \<Longrightarrow> has_fence (s @ after) = has_fence s"
proof (induction after rule: rev_induct)
  case Nil
  then show ?case by simp
next
  case (snoc c cs)
  then have "is_space c" "blank cs" by (auto simp: blank_def)
  with snoc.IH has_fence_snoc_space [of c "s @ cs"] show ?case by simp
qed

lemma trim_Cons_space: "is_space c \<Longrightarrow> trim (c # s) = trim s"
  by (simp add: trim_def)

lemma trim_snoc_space: "is_space c \<Longrightarrow> trim (s @ [c]) = trim s"
proof (cases "\<forall>x\<in>set s. is_space x")
  case True
  assume "is_space c"
  with True have a: "dropWhile is_space (s @ [c]) = []" and b: "dropWhile is_space s = []"
    by (induction s) auto
  show ?thesis unfolding trim_def a b by simp
next
  case False
  assume "is_space c"
  with False have "dropWhile is_space (s @ [c]) = dropWhile is_space s @ [c]"
    by (auto simp: dropWhile_append)
  with \<open>is_space c\<close> show ?thesis by (simp add: trim_def)
qed

lemma trim_blank_left: "blank before \<Longrightarrow> trim (before @ s) = trim s"
  by (induction before) (auto simp: blank_def trim_Cons_space)

lemma trim_blank_right: "blank after \<Longrightarrow> trim (s @ after) = trim s"
proof (induction after rule: rev_induct)
  case Nil
  then show ?case by simp
next
  case (snoc c cs)
  then have "is_space c" "blank cs" by (auto simp: blank_def)
  with snoc.IH trim_snoc_space [of c "s @ cs"] show ?case by simp
qed

lemma blank_newline: "blank [newline]"
  by (simp add: blank_def is_space_def newline_def)

lemma strip_fences_fenced:
  assumes "\<not> has_fence j" and "blank before" and "blank after"
  shows "strip_fences (fenced before after j) = trim j"
proof -
  let ?s = "before @ j @ after"
  have nf: "\<not> has_fence ?s"
    using assms has_fence_blank_left [of before "j @ after"] has_fence_blank_right [of after j]
    by simp
  have "replace_all ''```json'' [] (fenced before after j) =
        replace_all ''```json'' [] (?s @ ''```'')"
    by (simp add: fenced_def)
  also have "\<dots> = ?s @ ''```''"
    using nf by (rule replace_json_fence_tail)
  finally have a: "replace_all ''```json'' [] (fenced before after j) = ?s @ ''```''" .
  have b: "replace_all ''```'' [] (?s @ ''```'') = ?s"
    using nf by (rule replace_fence_tail)
  have "trim ?s = trim j"
    using assms(2,3) trim_blank_left [of before "j @ after"] trim_blank_right [of after j]
    by simp
  with a b show ?thesis by (simp add: strip_fences_def)
qed

lemma strip_fences_plain: "\<not> has_fence j \<Longrightarrow> strip_fences j = trim j"
  by (simp add: strip_fences_def replace_fence_id replace_json_fence_id)

lemmas gen_defs = generateTriviaQuestions_def generate_try_def get_questions_def
  extract_sources_def unique_def

text \<open>
  Claim C3. For every topic, when the generation call throws, or its response has no text
  or an empty one, or the text does not parse, \<open>generateTriviaQuestions\<close> returns the
  fallback: a list of exactly one hardcoded question, and no sources.
\<close>

theorem generation_failure_falls_back:
  assumes "generateContent (prompt a_topic) = Inl e \<or>
           (\<exists>r. generateContent (prompt a_topic) = Inr r \<and>
                (resp_text r = None \<or> resp_text r = Some [] \<or>
                 (\<exists>t e'. resp_text r = Some t \<and> JSON_parse (strip_fences t) = Inl e')))"
  shows "generateTriviaQuestions JSON_parse generateContent a_topic = fallback \<and>
         (\<exists>q. result_questions fallback = Some (JArray [q])) \<and>
         sources fallback = []"
  using assms by (auto simp: gen_defs fallback_def)

theorem generation_failure_falls_back_witness:
  "generateTriviaQuestions demo_parse (\<lambda>contents. Inl (Error ''Failed to fetch'')) ''Space Exploration'' = fallback \<and>
   generateTriviaQuestions demo_parse (demo_response '' '') ''Space Exploration'' = fallback \<and>
   generateTriviaQuestions demo_parse (demo_response ''I cannot help with that.'') ''Space Exploration'' = fallback"
proof -
  have a: "demo_parse (strip_fences '' '') = Inl (Error ''SyntaxError'')"
    "demo_parse (strip_fences ''I cannot help with that.'') = Inl (Error ''SyntaxError'')"
    by (simp_all add: strip_fences_def trim_def is_space_def demo_parse_def demo_json_def
          demo_json_ticks_def demo_json_stripped_def)
  have 1: "generateTriviaQuestions demo_parse (\<lambda>contents. Inl (Error ''Failed to fetch'')) ''Space Exploration'' = fallback"
    using generation_failure_falls_back [of "\<lambda>contents. Inl (Error ''Failed to fetch'')" "''Space Exploration''" "Error ''Failed to fetch''" demo_parse]
    by simp
  have 2: "generateTriviaQuestions demo_parse (demo_response t) ''Space Exploration'' = fallback"
    if "demo_parse (strip_fences t) = Inl (Error ''SyntaxError'')" for t
    using generation_failure_falls_back [of "demo_response t" "''Space Exploration''" _ demo_parse] that
    by (simp add: demo_response_def)
  from 1 2 [OF a(1)] 2 [OF a(2)] show ?thesis by simp
qed

text \<open>
  Claim C5, as the code has it. When the response text is a JSON text without three
  backticks in a row, wrapped in a \<open>```json\<close> fence with any white space, or none, between
  the fences and the text, the text handed to \<open>JSON.parse\<close> is the JSON text itself
  (trimmed), and the \<open>questions\<close> member of the object it parses to is returned.
\<close>

theorem fenced_json_is_parsed:
  assumes "\<not> has_fence j" and "blank before" and "blank after"
    and "generateContent (prompt a_topic) = Inr r"
    and "resp_text r = Some (fenced before after j)"
    and "JSON_parse (trim j) = Inr (JObject members)"
    and "map_of members ''questions'' = Some qs"
  shows "strip_fences (fenced before after j) = trim j \<and>
         result_questions (generateTriviaQuestions JSON_parse generateContent a_topic) = Some qs"
proof -
  have s: "strip_fences (fenced before after j) = trim j"
    using assms(1,2,3) by (rule strip_fences_fenced)
  have "fenced before after j \<noteq> []" by (simp add: fenced_def)
  with assms s show ?thesis
    by (simp add: gen_defs)
qed

lemma demo_no_fence: "\<not> has_fence demo_json"
  by (simp add: demo_json_def backtick_def)

lemma demo_trim: "trim demo_json = demo_json"
  by (simp add: demo_json_def trim_def is_space_def)

theorem fenced_json_is_parsed_witness:
  "\<not> has_fence demo_json \<and> blank [newline] \<and>
   demo_parse (trim demo_json) = Inr (JObject [(''questions'', demo_questions)]) \<and>
   generateTriviaQuestions demo_parse (demo_response (fenced [newline] [newline] demo_json)) ''Space Exploration'' =
     \<lparr>result_questions = Some demo_questions, sources = [''https://example.org/a'']\<rparr>"
proof -
  have p: "demo_parse (trim demo_json) = Inr (JObject [(''questions'', demo_questions)])"
    by (simp add: demo_trim demo_parse_def)
  have r: "demo_response (fenced [newline] [newline] demo_json) (prompt ''Space Exploration'') =
      Inr \<lparr>resp_text = Some (fenced [newline] [newline] demo_json),
           groundingChunks = Some [Some ''https://example.org/a'', None, Some ''https://example.org/a'']\<rparr>"
    by (simp add: demo_response_def)
  have q: "strip_fences (fenced [newline] [newline] demo_json) = trim demo_json \<and>
    result_questions (generateTriviaQuestions demo_parse (demo_response (fenced [newline] [newline] demo_json)) ''Space Exploration'') = Some demo_questions"
    using fenced_json_is_parsed [where j = demo_json and JSON_parse = demo_parse
        and generateContent = "demo_response (fenced [newline] [newline] demo_json)"
        and a_topic = "''Space Exploration''" and qs = demo_questions
        and members = "[(''questions'', demo_questions)]",
        OF demo_no_fence blank_newline blank_newline r _ p]
    by simp
  have f: "fenced [newline] [newline] demo_json \<noteq> []" by (simp add: fenced_def)
  have "sources (generateTriviaQuestions demo_parse (demo_response (fenced [newline] [newline] demo_json)) ''Space Exploration'') = [''https://example.org/a'']"
    using q p f by (simp add: gen_defs demo_response_def)
  with q p demo_no_fence blank_newline show ?thesis
    by (cases "generateTriviaQuestions demo_parse (demo_response (fenced [newline] [newline] demo_json)) ''Space Exploration''") simp
qed

text \<open>
  Claim C5 as stated fails for a JSON text that contains three backticks itself: they are
  removed with the fence, and the question returned is not the question of the response.
\<close>

theorem fenced_json_with_backticks_counterexample:
  "demo_parse demo_json_ticks = Inr (JObject [(''questions'', demo_questions_ticks)]) \<and>
   strip_fences (fenced [newline] [newline] demo_json_ticks) = demo_json_stripped \<and>
   result_questions
     (generateTriviaQuestions demo_parse (demo_response (fenced [newline] [newline] demo_json_ticks)) ''Markdown'')
     = Some demo_questions_stripped \<and>
   demo_questions_stripped \<noteq> demo_questions_ticks"
proof -
  have s: "strip_fences (fenced [newline] [newline] demo_json_ticks) = demo_json_stripped"
    by (simp add: strip_fences_def fenced_def demo_json_ticks_def demo_json_stripped_def
          trim_def is_space_def newline_def)
  have p: "demo_parse demo_json_ticks = Inr (JObject [(''questions'', demo_questions_ticks)])"
    by (simp add: demo_parse_def demo_json_def demo_json_ticks_def)
  have p': "demo_parse demo_json_stripped = Inr (JObject [(''questions'', demo_questions_stripped)])"
    by (simp add: demo_parse_def demo_json_def demo_json_ticks_def demo_json_stripped_def)
  have f: "fenced [newline] [newline] demo_json_ticks \<noteq> []" by (simp add: fenced_def)
  have r: "result_questions
     (generateTriviaQuestions demo_parse (demo_response (fenced [newline] [newline] demo_json_ticks)) ''Markdown'')
     = Some demo_questions_stripped"
    using s p' f by (simp add: gen_defs demo_response_def)
  have d: "demo_questions_stripped \<noteq> demo_questions_ticks"
    by (simp add: demo_questions_stripped_def demo_questions_ticks_def)
  from s p r d show ?thesis by simp
qed

section \<open>The live game: playback scheduling\<close>

lemma start_times_append: "start_times (xs @ ys) = start_times xs @ start_times ys"
  by (induction xs rule: start_times.induct) auto










lemma emit_sched [simp]:
  "nextStartTimeRef (emit e st) = nextStartTimeRef st"
  "pendingDecodes (emit e st) = pendingDecodes st"
  "start_times (effects (emit e st)) = start_times (effects st) @ start_times [e]"
  by (simp_all add: emit_def start_times_append)


lemma run_callback_sched [simp]:
  "nextStartTimeRef (run_callback session cb st) = nextStartTimeRef st"
  "pendingDecodes (run_callback session cb st) = pendingDecodes st"
  "start_times (effects (run_callback session cb st)) = start_times (effects st)"
  by (auto simp: run_callback_def split: callback.splits)


lemma then_session_sched [simp]:
  "nextStartTimeRef (then_session cb st) = nextStartTimeRef st"
  "pendingDecodes (then_session cb st) = pendingDecodes st"
  "start_times (effects (then_session cb st)) = start_times (effects st)"
  by (auto simp: then_session_def split: option.splits promise.splits)









lemma live_run_snoc: "live_run utils (evs @ [ev]) st = live_step utils (live_run utils evs st) ev"
  by (simp add: live_run_def)



lemmas live_defs = live_run_def live_mount_def live_first_render_def emit_def micSettled_def
  sessionSettled_def run_callback_def then_session_def onOpen_def onaudioprocess_def
  onMessage_def after_audio_def start_source_def decodeSettled_def handle_in_order_def
  handle_interruption_def sourceEnded_def toggleMic_def
  onError_def cleanup_def stop_tracks_def disconnect_processor_def disconnect_source_def
  close_input_def close_output_def close_session_def onEndGame_def onClose_def

lemmas demo_defs = demo_utils_def demo_audio_def demo_interrupt_def demo_session_def demo_live_def
  demo_garbled_def demo_barge_in_def







section \<open>The live game: interruption\<close>







section \<open>The live game: microphone and teardown\<close>

lemma emit_closure [simp]: "closure_isMicOn (emit e st) = closure_isMicOn st"
  by (simp add: emit_def)

lemma foldl_emit_closure:
  "closure_isMicOn (foldl (\<lambda>s t. emit (f t) s) st xs) = closure_isMicOn st"
  by (induction xs arbitrary: st) auto

lemma run_callbacks_closure:
  "closure_isMicOn (foldl (\<lambda>s cb. run_callback session cb s) st cbs) = closure_isMicOn st"
  by (induction cbs arbitrary: st) (auto simp: run_callback_def split: callback.splits)

lemma then_session_closure: "closure_isMicOn (then_session cb st) = closure_isMicOn st"
  by (auto simp: then_session_def run_callback_def split: option.splits promise.splits callback.splits)

lemma cleanup_closure: "closure_isMicOn (cleanup st) = closure_isMicOn st"
  by (simp add: cleanup_def stop_tracks_def disconnect_processor_def disconnect_source_def
        close_input_def close_output_def close_session_def then_session_closure
        foldl_emit_closure split: option.splits)

lemma live_step_closure: "closure_isMicOn (live_step utils st ev) = closure_isMicOn st"
proof (cases ev)
  case (Message t m)
  then show ?thesis
    by (auto simp: onMessage_def after_audio_def handle_interruption_def foldl_emit_closure
        Let_def split: option.splits sum.splits)
next
  case (DecodeSettled k)
  then show ?thesis
    by (auto simp: decodeSettled_def start_source_def after_audio_def handle_interruption_def
        foldl_emit_closure Let_def split: option.splits sum.splits prod.splits)
qed (auto simp: micSettled_def sessionSettled_def run_callbacks_closure onOpen_def
      onaudioprocess_def then_session_closure sourceEnded_def toggleMic_def onClose_def
      onError_def onEndGame_def cleanup_closure Let_def split: sum.splits)

text \<open>
  The flag that the audio callback tests is the one of the first render in every
  reachable state: toggling the microphone never reaches it.
\<close>

lemma mute_check_never_fires: "closure_isMicOn (live_run utils evs live_mount)"
proof (induction evs rule: rev_induct)
  case Nil
  show ?case by (simp add: live_run_def live_mount_def live_first_render_def emit_def Let_def)
next
  case (snoc ev evs)
  then show ?case by (simp add: live_run_def live_step_closure)
qed

text \<open>
  Claim C7 on the code: the audio callback tests the \<open>isMicOn\<close> of the render that mounted
  the component, which is true. After the microphone is toggled off, a captured frame is
  still sent.
\<close>

theorem muted_frame_is_sent:
  "\<not> isMicOn (live_run demo_utils demo_muted live_mount) \<and>
   effects (live_run demo_utils demo_muted live_mount) =
     [GetUserMedia, Connect, SendRealtimeInput (createPcmBlob demo_utils [0.25, - 0.5])]"
  by (simp add: demo_muted_def demo_defs live_defs Let_def)

lemma foldl_emit_effects:
  "effects (foldl (\<lambda>s t. emit (f t) s) st xs) = effects st @ map f xs"
  by (induction xs arbitrary: st) (auto simp: emit_def)

lemma foldl_emit_refs:
  "streamRef (foldl (\<lambda>s t. emit (f t) s) st xs) = streamRef st"
  "sessionRef (foldl (\<lambda>s t. emit (f t) s) st xs) = sessionRef st"
  "processorRef (foldl (\<lambda>s t. emit (f t) s) st xs) = processorRef st"
  "sourceRef (foldl (\<lambda>s t. emit (f t) s) st xs) = sourceRef st"
  "inputCtxRef (foldl (\<lambda>s t. emit (f t) s) st xs) = inputCtxRef st"
  "outputCtxRef (foldl (\<lambda>s t. emit (f t) s) st xs) = outputCtxRef st"
  "thenCallbacks (foldl (\<lambda>s t. emit (f t) s) st xs) = thenCallbacks st"
  "isMounted (foldl (\<lambda>s t. emit (f t) s) st xs) = isMounted st"
  by (induction xs arbitrary: st) (auto simp: emit_def)

text \<open>What each line of the cleanup adds to the log, and that it leaves the other refs alone.\<close>

lemma stop_tracks_effects:
  "effects (stop_tracks st) =
     effects st @ (case streamRef st of None \<Rightarrow> [] | Some tracks \<Rightarrow> map TrackStop tracks)"
  by (simp add: stop_tracks_def foldl_emit_effects split: option.splits)

lemma stop_tracks_refs [simp]:
  "processorRef (stop_tracks st) = processorRef st"
  "sourceRef (stop_tracks st) = sourceRef st"
  "inputCtxRef (stop_tracks st) = inputCtxRef st"
  "outputCtxRef (stop_tracks st) = outputCtxRef st"
  "sessionRef (stop_tracks st) = sessionRef st"
  "thenCallbacks (stop_tracks st) = thenCallbacks st"
  "isMounted (stop_tracks st) = isMounted st"
  by (simp_all add: stop_tracks_def foldl_emit_refs split: option.splits)

lemma disconnect_processor_effects:
  "effects (disconnect_processor st) =
     effects st @ (if processorRef st = None then [] else [ProcessorDisconnect])"
  by (simp add: disconnect_processor_def emit_def split: option.splits)

lemma disconnect_processor_refs [simp]:
  "sourceRef (disconnect_processor st) = sourceRef st"
  "inputCtxRef (disconnect_processor st) = inputCtxRef st"
  "outputCtxRef (disconnect_processor st) = outputCtxRef st"
  "sessionRef (disconnect_processor st) = sessionRef st"
  "thenCallbacks (disconnect_processor st) = thenCallbacks st"
  "isMounted (disconnect_processor st) = isMounted st"
  by (simp_all add: disconnect_processor_def emit_def split: option.splits)

lemma disconnect_source_effects:
  "effects (disconnect_source st) =
     effects st @ (if sourceRef st = None then [] else [SourceNodeDisconnect])"
  by (simp add: disconnect_source_def emit_def split: option.splits)

lemma disconnect_source_refs [simp]:
  "inputCtxRef (disconnect_source st) = inputCtxRef st"
  "outputCtxRef (disconnect_source st) = outputCtxRef st"
  "sessionRef (disconnect_source st) = sessionRef st"
  "thenCallbacks (disconnect_source st) = thenCallbacks st"
  "isMounted (disconnect_source st) = isMounted st"
  by (simp_all add: disconnect_source_def emit_def split: option.splits)

lemma close_input_effects:
  "effects (close_input st) = effects st @ (if inputCtxRef st = None then [] else [InputCtxClose])"
  by (simp add: close_input_def emit_def split: option.splits)

lemma close_input_refs [simp]:
  "outputCtxRef (close_input st) = outputCtxRef st"
  "sessionRef (close_input st) = sessionRef st"
  "thenCallbacks (close_input st) = thenCallbacks st"
  "isMounted (close_input st) = isMounted st"
  by (simp_all add: close_input_def emit_def split: option.splits)

lemma close_output_effects:
  "effects (close_output st) = effects st @ (if outputCtxRef st = None then [] else [OutputCtxClose])"
  by (simp add: close_output_def emit_def split: option.splits)

lemma close_output_refs [simp]:
  "sessionRef (close_output st) = sessionRef st"
  "thenCallbacks (close_output st) = thenCallbacks st"
  "isMounted (close_output st) = isMounted st"
  by (simp_all add: close_output_def emit_def split: option.splits)

lemma close_session_effects:
  "effects (close_session st) =
     effects st @
       (case sessionRef st of
          Some (Fulfilled session) \<Rightarrow> if has_close session then [SessionClose] else []
        | _ \<Rightarrow> [])"
  by (simp add: close_session_def then_session_def run_callback_def emit_def
        split: option.splits promise.splits)

lemma close_session_pending:
  "sessionRef st = Some Pending \<Longrightarrow>
     sessionRef (close_session st) = Some Pending \<and>
     thenCallbacks (close_session st) = thenCallbacks st @ [Close]"
  by (simp add: close_session_def then_session_def)

lemma close_session_mounted [simp]: "isMounted (close_session st) = isMounted st"
  by (simp add: close_session_def then_session_def run_callback_def emit_def
        split: option.splits promise.splits)

lemma cleanup_effects:
  "effects (cleanup st) =
     effects st
       @ (case streamRef st of None \<Rightarrow> [] | Some tracks \<Rightarrow> map TrackStop tracks)
       @ (if processorRef st = None then [] else [ProcessorDisconnect])
       @ (if sourceRef st = None then [] else [SourceNodeDisconnect])
       @ (if inputCtxRef st = None then [] else [InputCtxClose])
       @ (if outputCtxRef st = None then [] else [OutputCtxClose])
       @ (case sessionRef st of
            Some (Fulfilled session) \<Rightarrow> if has_close session then [SessionClose] else []
          | _ \<Rightarrow> [])"
  by (simp only: cleanup_def close_session_effects close_output_effects close_input_effects
        disconnect_source_effects disconnect_processor_effects stop_tracks_effects
        close_output_refs close_input_refs disconnect_source_refs disconnect_processor_refs
        stop_tracks_refs append_assoc)
     simp

lemma run_callbacks_close:
  "has_close session \<Longrightarrow>
   SessionClose \<in> set (effects (foldl (\<lambda>s cb. run_callback session cb s) st (cbs @ [Close])))"
  by (simp add: run_callback_def emit_def)

lemma cleanup_pending:
  assumes "sessionRef st = Some Pending" and "has_close session"
  shows "SessionClose \<in> set (effects (sessionSettled (Inr session) (cleanup st)))"
proof -
  let ?st = "close_output (close_input (disconnect_source (disconnect_processor
      (stop_tracks (st\<lparr>isMounted := False\<rparr>)))))"
  have "sessionRef ?st = Some Pending" using assms(1) by simp
  from close_session_pending [OF this]
  have "sessionRef (cleanup st) = Some Pending"
    and "thenCallbacks (cleanup st) = thenCallbacks ?st @ [Close]"
    by (simp_all add: cleanup_def)
  then show ?thesis
    using assms(2) by (simp add: sessionSettled_def run_callback_def emit_def)
qed

text \<open>
  What the cleanup does release: whatever the refs hold at teardown. It stops the tracks
  of the stream held, disconnects each node that was created, closes each context that
  was created, and chains a close on the connection promise held, so that close is
  invoked on a session that has that method, at once when the promise is fulfilled and
  otherwise when it becomes so.
\<close>

lemma cleanup_acts_on_refs:
  "\<not> isMounted (cleanup st) \<and>
   (\<forall>tracks. streamRef st = Some tracks \<longrightarrow>
      (\<forall>t \<in> set tracks. TrackStop t \<in> set (effects (cleanup st)))) \<and>
   (processorRef st \<noteq> None \<longrightarrow> ProcessorDisconnect \<in> set (effects (cleanup st))) \<and>
   (sourceRef st \<noteq> None \<longrightarrow> SourceNodeDisconnect \<in> set (effects (cleanup st))) \<and>
   (inputCtxRef st \<noteq> None \<longrightarrow> InputCtxClose \<in> set (effects (cleanup st))) \<and>
   (outputCtxRef st \<noteq> None \<longrightarrow> OutputCtxClose \<in> set (effects (cleanup st))) \<and>
   (\<forall>session. sessionRef st = Some (Fulfilled session) \<and> has_close session \<longrightarrow>
      SessionClose \<in> set (effects (cleanup st))) \<and>
   (\<forall>session. sessionRef st = Some Pending \<and> has_close session \<longrightarrow>
      SessionClose \<in> set (effects (sessionSettled (Inr session) (cleanup st))))"
proof -
  have m: "\<not> isMounted (cleanup st)" by (simp add: cleanup_def)
  have t: "\<forall>t \<in> set tracks. TrackStop t \<in> set (effects (cleanup st))"
    if "streamRef st = Some tracks" for tracks
    by (simp add: cleanup_effects that)
  have p: "ProcessorDisconnect \<in> set (effects (cleanup st))" if "processorRef st \<noteq> None"
    by (simp add: cleanup_effects that)
  have s: "SourceNodeDisconnect \<in> set (effects (cleanup st))" if "sourceRef st \<noteq> None"
    by (simp add: cleanup_effects that)
  have i: "InputCtxClose \<in> set (effects (cleanup st))" if "inputCtxRef st \<noteq> None"
    by (simp add: cleanup_effects that)
  have out: "OutputCtxClose \<in> set (effects (cleanup st))" if "outputCtxRef st \<noteq> None"
    by (simp add: cleanup_effects that)
  have f: "SessionClose \<in> set (effects (cleanup st))"
    if "sessionRef st = Some (Fulfilled session)" "has_close session" for session
    by (simp add: cleanup_effects that)
  have g: "SessionClose \<in> set (effects (sessionSettled (Inr session) (cleanup st)))"
    if "sessionRef st = Some Pending" "has_close session" for session
    using that by (rule cleanup_pending)
  from m t p s i out f g show ?thesis by blast
qed

text \<open>
  Once the component is unmounted with nothing pending, no event changes the state: every
  callback returns at its \<open>isMounted\<close> check or finds nothing to do.
\<close>

lemma live_step_idle:
  assumes "\<not> isMounted st" "\<not> micPending st" "sessionRef st \<noteq> Some Pending"
    "pendingDecodes st = []" "sourcesCreated st = 0" "processorRef st \<noteq> Some True"
  shows "live_step utils st ev = st"
  using assms
  by (cases ev)
     (simp_all add: micSettled_def sessionSettled_def onOpen_def onMessage_def
        decodeSettled_def sourceEnded_def onClose_def onError_def)

lemma live_run_idle:
  assumes "\<not> isMounted st" "\<not> micPending st" "sessionRef st \<noteq> Some Pending"
    "pendingDecodes st = []" "sourcesCreated st = 0" "processorRef st \<noteq> Some True"
  shows "live_run utils evs st = st"
proof (induction evs rule: rev_induct)
  case Nil
  show ?case by (simp add: live_run_def)
next
  case (snoc ev evs)
  then show ?case by (simp add: live_run_snoc live_step_idle [OF assms])
qed

lemma live_run_append: "live_run utils (xs @ ys) st = live_run utils ys (live_run utils xs st)"
  by (simp add: live_run_def)

text \<open>
  Claim C8 on the code. When teardown comes before the microphone is granted, the cleanup
  finds \<open>streamRef\<close> and \<open>sessionRef\<close> empty and only closes the two contexts.
  \<open>init\<close> then resumes without looking at \<open>isMounted\<close>: it keeps the stream and opens
  the session. Whatever happens afterwards, no track is stopped and close is never invoked
  on the session.
\<close>

theorem early_teardown_leaks:
  "\<not> isMounted (live_run demo_utils (demo_early_teardown @ evs) live_mount) \<and>
   streamRef (live_run demo_utils (demo_early_teardown @ evs) live_mount) = Some [0, 1] \<and>
   sessionRef (live_run demo_utils (demo_early_teardown @ evs) live_mount)
     = Some (Fulfilled demo_session) \<and>
   has_close demo_session \<and>
   effects (live_run demo_utils (demo_early_teardown @ evs) live_mount) =
     [GetUserMedia, InputCtxClose, OutputCtxClose, Connect]"
proof -
  let ?st = "live_run demo_utils demo_early_teardown live_mount"
  have a: "\<not> isMounted ?st" "\<not> micPending ?st" "sessionRef ?st \<noteq> Some Pending"
    "pendingDecodes ?st = []" "sourcesCreated ?st = 0" "processorRef ?st \<noteq> Some True"
    by (simp_all add: demo_early_teardown_def demo_defs live_defs Let_def)
  have b: "streamRef ?st = Some [0, 1]" "sessionRef ?st = Some (Fulfilled demo_session)"
    "has_close demo_session"
    "effects ?st = [GetUserMedia, InputCtxClose, OutputCtxClose, Connect]"
    by (simp_all add: demo_early_teardown_def demo_defs live_defs Let_def)
  show ?thesis
    by (simp only: live_run_append live_run_idle [OF a] a b) simp
qed

end
